theory Spec2Isabelle
  imports Main "HOL-Library.AList"
begin

section \<open>Python values used by \<open>apply_tags.py\<close>\<close>

text \<open>
  A Python \<open>str\<close> is modelled as a HOL \<open>string\<close>; each \<open>char\<close> stands for one code
  point below 256, so \<open>CHR 0xED\<close> is the single character of \<open>espec\<dots>fica\<close> that is
  not ASCII. A Python \<open>dict\<close> is an association list in insertion order with distinct
  keys: \<open>d[k] = v\<close> is \<open>AList.update k v d\<close> (an existing key keeps its place, a new key
  goes to the end), \<open>d.get(k)\<close> is \<open>map_of d k\<close> and \<open>len(d)\<close> is \<open>length d\<close>.
\<close>

datatype py_error = IndexError | ValueError

type_synonym ('k, 'v) dict = "('k \<times> 'v) list"

text \<open>\<open>xs[i]\<close>: a negative index counts from the end, an index out of range raises.\<close>

definition py_index :: "'a list \<Rightarrow> int \<Rightarrow> py_error + 'a" where
  "py_index xs i =
     (if 0 \<le> i \<and> i < int (length xs) then Inr (xs ! nat i)
      else if i < 0 \<and> - int (length xs) \<le> i then Inr (xs ! nat (int (length xs) + i))
      else Inl IndexError)"

text \<open>\<open>xs[i:j]\<close> for \<open>0 \<le> i \<le> j\<close>: the slice is cut at the end of the list.\<close>

definition py_slice :: "'a list \<Rightarrow> nat \<Rightarrow> nat \<Rightarrow> 'a list" where
  "py_slice xs i j = take (j - i) (drop i xs)"

text \<open>\<open>range(0, stop, step)\<close> for a positive step.\<close>

definition py_range_step :: "nat \<Rightarrow> nat \<Rightarrow> nat list" where
  "py_range_step stop step = map (\<lambda>k. k * step) [0 ..< (stop + step - 1) div step]"

text \<open>\<open>d.update(e)\<close>: the items of \<open>e\<close> are stored into \<open>d\<close> one after the other.\<close>

definition dict_update :: "('k, 'v) dict \<Rightarrow> ('k, 'v) dict \<Rightarrow> ('k, 'v) dict" where
  "dict_update d e = fold (\<lambda>kv acc. AList.update (fst kv) (snd kv) acc) e d"

text \<open>\<open>sep.join(pieces)\<close>.\<close>

fun py_join :: "string \<Rightarrow> string list \<Rightarrow> string" where
  "py_join sep [] = []"
| "py_join sep [p] = p"
| "py_join sep (p # q # ps) = p @ sep @ py_join sep (q # ps)"

text \<open>
  \<open>s.split(sep)\<close> scans from the left for occurrences of \<open>sep\<close> that do not overlap;
  \<open>cur\<close> is the piece being read. Every call of the source passes a literal separator
  that is not empty (Python raises \<open>ValueError\<close> on an empty one).
\<close>

function split_from :: "string \<Rightarrow> string \<Rightarrow> string \<Rightarrow> string list" where
  "split_from sep cur [] = [cur]"
| "split_from sep cur (x # xs) =
     (if sep \<noteq> [] \<and> take (length sep) (x # xs) = sep
      then cur # split_from sep [] (drop (length sep) (x # xs))
      else split_from sep (cur @ [x]) xs)"
  by pat_completeness auto
termination
  by (relation "measure (\<lambda>(sep, cur, s). length s)") auto

definition py_split :: "string \<Rightarrow> string \<Rightarrow> string list" where
  "py_split sep s = split_from sep [] s"

text \<open>\<open>s.split(sep, maxsplit)\<close>: at most \<open>maxsplit\<close> cuts, the rest is the last piece.\<close>

fun splitn_from :: "string \<Rightarrow> nat \<Rightarrow> string \<Rightarrow> string \<Rightarrow> string list" where
  "splitn_from sep 0 cur s = [cur @ s]"
| "splitn_from sep (Suc n) cur [] = [cur]"
| "splitn_from sep (Suc n) cur (x # xs) =
     (if sep \<noteq> [] \<and> take (length sep) (x # xs) = sep
      then cur # splitn_from sep n [] (drop (length sep) (x # xs))
      else splitn_from sep (Suc n) (cur @ [x]) xs)"

definition py_splitn :: "string \<Rightarrow> nat \<Rightarrow> string \<Rightarrow> string list" where
  "py_splitn sep maxsplit s = splitn_from sep maxsplit [] s"

text \<open>
  \<open>str.isspace\<close> on the code points below 256: TAB to CR, FS to US, the space, NEL
  and the no-break space. \<open>s.strip()\<close> removes them from both ends.
\<close>

definition isspace :: "char \<Rightarrow> bool" where
  "isspace c = (let n = (of_char c :: nat) in
     (9 \<le> n \<and> n \<le> 13) \<or> (28 \<le> n \<and> n \<le> 32) \<or> n = 133 \<or> n = 160)"

definition py_strip :: "string \<Rightarrow> string" where
  "py_strip s = rev (dropWhile isspace (rev (dropWhile isspace s)))"

text \<open>\<open>str(x)\<close> in an f-string, for a value that is a string or \<open>None\<close>.\<close>

definition py_str :: "string option \<Rightarrow> string" where
  "py_str x = (case x of None \<Rightarrow> ''None'' | Some s \<Rightarrow> s)"


section \<open>The parsers\<close>

text \<open>
  \<open>parse_tags\<close>: the loop over \<open>tags_string.split(',')\<close> with the dictionary \<open>tags\<close>
  as accumulator. Unpacking \<open>key, value = tag_pair.split('=', 1)\<close> raises
  \<open>ValueError\<close> unless the split has exactly two pieces.
\<close>

fun parse_tags_loop ::
  "string list \<Rightarrow> (string, string) dict \<Rightarrow> py_error + (string, string) dict" where
  "parse_tags_loop [] tags = Inr tags"
| "parse_tags_loop (tag_pair # rest) tags =
     (if CHR ''='' \<in> set tag_pair
      then (case py_splitn ''='' 1 tag_pair of
              [key, val] \<Rightarrow> parse_tags_loop rest (AList.update (py_strip key) (py_strip val) tags)
            | _ \<Rightarrow> Inl ValueError)
      else parse_tags_loop rest tags)"

text \<open>The argument is \<open>None\<close> or a string; \<open>not tags_string\<close> holds for \<open>None\<close> and \<open>''\<close>.\<close>

definition parse_tags :: "string option \<Rightarrow> py_error + (string, string) dict" where
  "parse_tags tags_string =
     (case tags_string of
        None \<Rightarrow> Inr []
      | Some s \<Rightarrow> if s = [] then Inr [] else parse_tags_loop (py_split '','' s) [])"

definition validate_arn :: "string \<Rightarrow> bool" where
  "validate_arn arn = (take 8 arn = ''arn:aws:'')"

text \<open>Both extractors return \<open>None\<close> where the source returns \<open>None\<close>.\<close>

definition get_service_from_arn :: "string \<Rightarrow> string option" where
  "get_service_from_arn arn =
     (case py_index (py_split '':'' arn) 2 of
        Inr service \<Rightarrow> Some service
      | Inl err \<Rightarrow> None)"

definition get_resource_type_from_arn :: "string \<Rightarrow> string option" where
  "get_resource_type_from_arn arn =
     (let parts = py_split '':'' arn in
      if 6 \<le> length parts then
        (case py_index parts 5 of
           Inl err \<Rightarrow> None
         | Inr resource_part \<Rightarrow>
             if CHR ''/'' \<in> set resource_part
             then (case py_index (py_split ''/'' resource_part) 0 of
                     Inl err \<Rightarrow> None
                   | Inr t \<Rightarrow> Some t)
             else Some resource_part)
      else None)"


text \<open>
  The words of the specification, for comparison with the functions above. The segments
  of a string delimited by a character:
\<close>

primrec segments :: "char \<Rightarrow> string \<Rightarrow> string list" where
  "segments c [] = [[]]"
| "segments c (x # xs) =
     (if x = c then [] # segments c xs else (x # hd (segments c xs)) # tl (segments c xs))"

text \<open>
  The pairs of a tag string: the comma-delimited fields that contain \<open>=\<close>, each cut at
  its first \<open>=\<close>, key and value trimmed, in the order of the input.
\<close>

definition tag_pairs :: "string \<Rightarrow> (string \<times> string) list" where
  "tag_pairs s =
     map (\<lambda>p. (py_strip (takeWhile (\<lambda>x. x \<noteq> CHR ''='') p),
               py_strip (drop 1 (dropWhile (\<lambda>x. x \<noteq> CHR ''='') p))))
       (filter (\<lambda>p. CHR ''='' \<in> set p) (segments (CHR '','') s))"


section \<open>The remote services\<close>

text \<open>
  The boto3 clients are the environment. A call either returns or raises; the source
  tells \<open>botocore.exceptions.ClientError\<close>, which carries the error code and message of
  the service's answer, from every other exception (\<open>NoCredentialsError\<close> and
  \<open>EndpointConnectionError\<close> are raised by the same calls and are no \<open>ClientError\<close>).
  The environment has a state \<open>'w\<close> of its own, which every call may change, so the
  answer to a call may depend on the calls before it.

  \<open>tagging_client\<close> is \<open>boto3.client('resourcegroupstaggingapi')\<close> of line 109, which
  stands before the outer \<open>try\<close>: it returns the client or raises (\<open>NoRegionError\<close>
  when no region is configured). The adapter builds its client inside its own \<open>try\<close>,
  right before the first call on it (lines 61, 67 and 93); an exception there takes the
  path of an exception of that call that is no \<open>ClientError\<close>, so the first operation
  of each service stands for building the client and calling it.
\<close>

datatype exn =
    ClientError (error_code: string) (error_message: string)
  | OtherException string

datatype 'a outcome = Returns 'a | Raises exn

record failure_info =
  ErrorCode :: string
  ErrorMessage :: string

record 'w aws =
  tagging_client :: "'w \<Rightarrow> unit outcome \<times> 'w"
  appconfig_tag_resource :: "'w \<Rightarrow> string \<Rightarrow> (string, string) dict \<Rightarrow> unit outcome \<times> 'w"
  s3_get_bucket_tagging :: "'w \<Rightarrow> string \<Rightarrow> (string \<times> string) list option outcome \<times> 'w"
  s3_put_bucket_tagging :: "'w \<Rightarrow> string \<Rightarrow> (string \<times> string) list \<Rightarrow> unit outcome \<times> 'w"
  route53resolver_tag_resource :: "'w \<Rightarrow> string \<Rightarrow> (string \<times> string) list \<Rightarrow> unit outcome \<times> 'w"
  tag_resources ::
    "'w \<Rightarrow> string list \<Rightarrow> (string, string) dict \<Rightarrow> (string, failure_info) dict option outcome \<times> 'w"

text \<open>
  What a run does to the outside is recorded as a list of events, oldest first: the
  calls with their arguments and the log records of \<open>tag_resource_with_service_api\<close>.
  The result of \<open>get_bucket_tagging\<close> is its \<open>TagSet\<close> as a list of key and value, or
  \<open>None\<close> when the response has no \<open>TagSet\<close>; the result of \<open>tag_resources\<close> is its
  \<open>FailedResourcesMap\<close>, or \<open>None\<close> when the response has none.
\<close>

datatype level = INFO | WARNING | ERROR

datatype log_message =
    ExistingTags nat
  | NoExistingTags
  | ReadFailed exn
  | TagsApplied nat nat
  | ServiceApiError "string option" exn

datatype event =
    Call_appconfig_tag_resource string "(string, string) dict"
  | Call_get_bucket_tagging string
  | Call_put_bucket_tagging string "(string \<times> string) list"
  | Call_route53resolver_tag_resource string "(string \<times> string) list"
  | Call_tag_resources "string list" "(string, string) dict"
  | Log level log_message


section \<open>The dedicated adapter\<close>

text \<open>
  Lines 71 to 81: the inner \<open>try\<close> around \<open>get_bucket_tagging\<close>. Its handler catches
  \<open>ClientError\<close> only; any other exception leaves the block (\<open>Inl\<close>).
\<close>

definition read_existing_tags ::
  "'w aws \<Rightarrow> 'w \<Rightarrow> string \<Rightarrow> (exn + (string, string) dict) \<times> event list \<times> 'w" where
  "read_existing_tags env w bucket_name =
     (case s3_get_bucket_tagging env w bucket_name of
        (Returns response, w') \<Rightarrow>
          (let existing_tags =
                 fold (\<lambda>tag acc. AList.update (fst tag) (snd tag) acc)
                   (case response of None \<Rightarrow> [] | Some tag_set \<Rightarrow> tag_set) []
           in (Inr existing_tags,
               [Call_get_bucket_tagging bucket_name, Log INFO (ExistingTags (length existing_tags))],
               w'))
      | (Raises (ClientError code msg), w') \<Rightarrow>
          (Inr [],
           [Call_get_bucket_tagging bucket_name,
            if code = ''NoSuchTagSet'' then Log INFO NoExistingTags
            else Log WARNING (ReadFailed (ClientError code msg))],
           w')
      | (Raises (OtherException m), w') \<Rightarrow>
          (Inl (OtherException m), [Call_get_bucket_tagging bucket_name], w'))"

text \<open>
  \<open>tag_resource_with_service_api\<close> returns its boolean, the events of the call and the
  environment after it. The outer handler (line 100) catches every exception, logs it and
  returns \<open>False\<close>.
\<close>

definition tag_resource_with_service_api ::
  "'w aws \<Rightarrow> string \<Rightarrow> (string, string) dict \<Rightarrow> string option \<Rightarrow> 'w \<Rightarrow> bool \<times> event list \<times> 'w" where
  "tag_resource_with_service_api env arn tags service w =
     (if service = Some ''appconfig'' then
        (case appconfig_tag_resource env w arn tags of
           (Returns u, w') \<Rightarrow> (True, [Call_appconfig_tag_resource arn tags], w')
         | (Raises e, w') \<Rightarrow>
             (False, [Call_appconfig_tag_resource arn tags, Log ERROR (ServiceApiError service e)], w'))
      else if service = Some ''s3'' then
        (case py_index (py_split '':::'' arn) (- 1) of
           Inl err \<Rightarrow>
             (False, [Log ERROR (ServiceApiError service (OtherException ''list index out of range''))], w)
         | Inr bucket_name \<Rightarrow>
             (case read_existing_tags env w bucket_name of
                (Inl e, evs, w1) \<Rightarrow> (False, evs @ [Log ERROR (ServiceApiError service e)], w1)
              | (Inr existing_tags, evs, w1) \<Rightarrow>
                  (let combined_tags = dict_update existing_tags tags;
                       tag_set = combined_tags
                   in case s3_put_bucket_tagging env w1 bucket_name tag_set of
                        (Returns u, w2) \<Rightarrow>
                          (True,
                           evs @ [Call_put_bucket_tagging bucket_name tag_set,
                                  Log INFO (TagsApplied (length tags) (length combined_tags))],
                           w2)
                      | (Raises e, w2) \<Rightarrow>
                          (False,
                           evs @ [Call_put_bucket_tagging bucket_name tag_set,
                                  Log ERROR (ServiceApiError service e)],
                           w2))))
      else if service = Some ''route53resolver'' then
        (case route53resolver_tag_resource env w arn tags of
           (Returns u, w') \<Rightarrow> (True, [Call_route53resolver_tag_resource arn tags], w')
         | (Raises e, w') \<Rightarrow>
             (False,
              [Call_route53resolver_tag_resource arn tags, Log ERROR (ServiceApiError service e)], w'))
      else (False, [], w))"


section \<open>Dispatch, batches and the report\<close>

text \<open>
  The local variables of \<open>apply_tags_to_resources\<close> that the loops change, with the
  environment and the events so far. Logging in \<open>apply_tags_to_resources\<close> only writes
  to the log sink and is left out.
\<close>

record 'w run_state =
  world :: 'w
  trace :: "event list"
  total_success_count :: int
  total_failed :: "(string, failure_info) dict"

definition unsupported_services :: "string set" where
  "unsupported_services = {''s3'', ''appconfig'', ''route53resolver''}"

definition is_service_specific :: "string \<Rightarrow> bool" where
  "is_service_specific arn =
     (case get_service_from_arn arn of
        None \<Rightarrow> False
      | Some service \<Rightarrow> service \<in> unsupported_services)"

definition service_specific_arns :: "string list \<Rightarrow> string list" where
  "service_specific_arns resource_arns = filter is_service_specific resource_arns"

definition resource_groups_arns :: "string list \<Rightarrow> string list" where
  "resource_groups_arns resource_arns = filter (\<lambda>arn. \<not> is_service_specific arn) resource_arns"

definition BATCH_SIZE :: nat where
  "BATCH_SIZE = 20"

definition batches :: "string list \<Rightarrow> string list list" where
  "batches arns =
     map (\<lambda>i. py_slice arns i (i + BATCH_SIZE)) (py_range_step (length arns) BATCH_SIZE)"

definition service_specific_failure :: "string option \<Rightarrow> failure_info" where
  "service_specific_failure service =
     \<lparr>ErrorCode = ''ServiceSpecificAPIError'',
      ErrorMessage = ''Error usando API espec'' @ [CHR 0xED] @ ''fica de '' @ py_str service\<rparr>"

text \<open>Lines 149 to 161: one call of the adapter for each identifier.\<close>

fun process_service_specific ::
  "'w aws \<Rightarrow> (string, string) dict \<Rightarrow> string list \<Rightarrow> 'w run_state \<Rightarrow> 'w run_state" where
  "process_service_specific env tags [] st = st"
| "process_service_specific env tags (arn # arns) st =
     (let service = get_service_from_arn arn in
      case tag_resource_with_service_api env arn tags service (world st) of
        (ok, evs, w') \<Rightarrow>
          process_service_specific env tags arns
            (if ok
             then st\<lparr>world := w', trace := trace st @ evs,
                     total_success_count := total_success_count st + 1\<rparr>
             else st\<lparr>world := w', trace := trace st @ evs,
                     total_failed :=
                       AList.update arn (service_specific_failure service) (total_failed st)\<rparr>))"

text \<open>
  Lines 205 to 209: every identifier of the batch is stored with the code and the
  message of the \<open>ClientError\<close>.
\<close>

definition mark_batch_failed ::
  "string list \<Rightarrow> string \<Rightarrow> string \<Rightarrow> (string, failure_info) dict \<Rightarrow> (string, failure_info) dict" where
  "mark_batch_failed batch_arns code msg failed =
     fold (\<lambda>arn acc. AList.update arn \<lparr>ErrorCode = code, ErrorMessage = msg\<rparr> acc) batch_arns failed"

text \<open>
  Lines 171 to 209: one pass of the loop over the batches. The inner handler catches
  \<open>ClientError\<close>; any other exception leaves the loop, which the result reports as
  \<open>Inl\<close> with the state reached.
\<close>

definition process_batch ::
  "'w aws \<Rightarrow> (string, string) dict \<Rightarrow> string list \<Rightarrow> 'w run_state \<Rightarrow> exn option \<times> 'w run_state" where
  "process_batch env tags batch_arns st =
     (case tag_resources env (world st) batch_arns tags of
        (Returns response, w') \<Rightarrow>
          (let batch_failed = (case response of None \<Rightarrow> [] | Some m \<Rightarrow> m);
               batch_success_count = int (length batch_arns) - int (length batch_failed)
           in (None,
               st\<lparr>world := w',
                  trace := trace st @ [Call_tag_resources batch_arns tags],
                  total_success_count := total_success_count st + batch_success_count,
                  total_failed := dict_update (total_failed st) batch_failed\<rparr>))
      | (Raises (ClientError code msg), w') \<Rightarrow>
          (None,
           st\<lparr>world := w',
              trace := trace st @ [Call_tag_resources batch_arns tags],
              total_failed := mark_batch_failed batch_arns code msg (total_failed st)\<rparr>)
      | (Raises (OtherException m), w') \<Rightarrow>
          (Some (OtherException m),
           st\<lparr>world := w', trace := trace st @ [Call_tag_resources batch_arns tags]\<rparr>))"

fun process_batches ::
  "'w aws \<Rightarrow> (string, string) dict \<Rightarrow> string list list \<Rightarrow> 'w run_state \<Rightarrow> exn option \<times> 'w run_state" where
  "process_batches env tags [] st = (None, st)"
| "process_batches env tags (batch_arns # rest) st =
     (case process_batch env tags batch_arns st of
        (None, st') \<Rightarrow> process_batches env tags rest st'
      | (Some e, st') \<Rightarrow> (Some e, st'))"

text \<open>Lines 164 to 209: the batch path runs only when there is an identifier for it.\<close>

definition batch_engine ::
  "'w aws \<Rightarrow> (string, string) dict \<Rightarrow> string list \<Rightarrow> 'w run_state \<Rightarrow> exn option \<times> 'w run_state" where
  "batch_engine env tags rg st =
     (if rg \<noteq> [] then process_batches env tags (batches rg) st else (None, st))"

text \<open>
  The result of a call of \<open>apply_tags_to_resources\<close>: the boolean returned, or \<open>None\<close>
  when the call raises instead of returning; the exception that kept the run from the
  report of lines 212 to 229, if any; and the last state of the local variables.
\<close>

datatype 'w run = Run (outcome: "bool option") (escaped: "exn option") (final: "'w run_state")

text \<open>The local variables before the first loop (lines 145 and 146).\<close>

definition initial_state :: "'w \<Rightarrow> 'w run_state" where
  "initial_state w = \<lparr>world = w, trace = [], total_success_count = 0, total_failed = []\<rparr>"

text \<open>
  Lines 114 to 244, the outer \<open>try\<close>. An exception that leaves the loops reaches one
  of its two handlers; both return \<open>False\<close>.
\<close>

definition tagging_run ::
  "'w aws \<Rightarrow> string list \<Rightarrow> (string, string) dict \<Rightarrow> 'w \<Rightarrow> 'w run" where
  "tagging_run env resource_arns tags w =
     (let rg = resource_groups_arns resource_arns;
          ss = service_specific_arns resource_arns;
          st0 = initial_state w;
          st1 = process_service_specific env tags ss st0
      in case batch_engine env tags rg st1 of
           (None, st2) \<Rightarrow> Run (Some (length (total_failed st2) = 0)) None st2
         | (Some e, st2) \<Rightarrow> Run (Some False) (Some e) st2)"

text \<open>
  \<open>apply_tags_to_resources\<close>: the client of line 109, then the \<open>try\<close>. An exception of
  line 109 is outside the \<open>try\<close> and leaves the function: no boolean is returned, and
  nothing has been counted or recorded.
\<close>

definition apply_tags_to_resources ::
  "'w aws \<Rightarrow> string list \<Rightarrow> (string, string) dict \<Rightarrow> 'w \<Rightarrow> 'w run" where
  "apply_tags_to_resources env resource_arns tags w =
     (case tagging_client env w of
        (Returns client, w0) \<Rightarrow> tagging_run env resource_arns tags w0
      | (Raises e, w0) \<Rightarrow> Run None (Some e) (initial_state w0))"


section \<open>Observations and environments\<close>

text \<open>The bulk calls and the bucket writes of a list of events, in order.\<close>

fun bulk_calls :: "event list \<Rightarrow> (string list \<times> (string, string) dict) list" where
  "bulk_calls [] = []"
| "bulk_calls (Call_tag_resources batch_arns tags # evs) = (batch_arns, tags) # bulk_calls evs"
| "bulk_calls (e # evs) = bulk_calls evs"

fun bucket_writes :: "event list \<Rightarrow> (string \<times> (string \<times> string) list) list" where
  "bucket_writes [] = []"
| "bucket_writes (Call_put_bucket_tagging bucket_name tag_set # evs) =
     (bucket_name, tag_set) # bucket_writes evs"
| "bucket_writes (e # evs) = bucket_writes evs"

text \<open>
  A response of the bulk call is well formed when its failure map is a dictionary (its
  keys are distinct) over identifiers of the request.
\<close>

definition bulk_well_formed :: "'w aws \<Rightarrow> bool" where
  "bulk_well_formed env =
     (\<forall>w batch_arns tags m w'.
        tag_resources env w batch_arns tags = (Returns (Some m), w') \<longrightarrow>
        distinct (map fst m) \<and> fst ` set m \<subseteq> set batch_arns)"

text \<open>
  The tags that the adapter takes from the outcome of reading a bucket (lines 71 to 81):
  the tag set returned, and no tag when the response has no tag set or the read raised.
\<close>

definition tags_read :: "(string \<times> string) list option outcome \<Rightarrow> (string \<times> string) list" where
  "tags_read out =
     (case out of
        Returns (Some tag_set) \<Rightarrow> tag_set
      | Returns None \<Rightarrow> []
      | Raises e \<Rightarrow> [])"

text \<open>
  An operation that the adapter calls for \<open>arn\<close> in the state \<open>w\<close> raises \<open>e\<close>, leaving
  the environment in \<open>w'\<close>, and nothing catches \<open>e\<close> before the handler of line 100: the
  tagging call of appconfig or of route53resolver, the read of the bucket when the
  exception is no \<open>ClientError\<close>, and otherwise the write of the bucket.
\<close>

definition adapter_call_raises ::
  "'w aws \<Rightarrow> string \<Rightarrow> (string, string) dict \<Rightarrow> 'w \<Rightarrow> exn \<Rightarrow> 'w \<Rightarrow> bool" where
  "adapter_call_raises env arn tags w e w' =
     (case get_service_from_arn arn of
        None \<Rightarrow> False
      | Some service \<Rightarrow>
          if service = ''appconfig'' then appconfig_tag_resource env w arn tags = (Raises e, w')
          else if service = ''s3'' then
            (case s3_get_bucket_tagging env w (last (py_split '':::'' arn)) of
               (Raises (OtherException m), w1) \<Rightarrow> e = OtherException m \<and> w' = w1
             | (out, w1) \<Rightarrow>
                 s3_put_bucket_tagging env w1 (last (py_split '':::'' arn))
                   (dict_update (dict_update [] (tags_read out)) tags) = (Raises e, w'))
          else if service = ''route53resolver'' then
            route53resolver_tag_resource env w arn tags = (Raises e, w')
          else False)"

text \<open>
  Environments without a state of their own: the clients can be built, each operation
  has one answer, the bulk call one answer for each request.
\<close>

definition stateless_env ::
  "unit outcome \<Rightarrow> (string \<times> string) list option outcome \<Rightarrow> unit outcome \<Rightarrow> unit outcome \<Rightarrow>
   (string list \<Rightarrow> (string, failure_info) dict option outcome) \<Rightarrow> unit aws" where
  "stateless_env a g p r t =
     \<lparr>tagging_client = (\<lambda>w. (Returns (), w)),
      appconfig_tag_resource = (\<lambda>w arn tags. (a, w)),
      s3_get_bucket_tagging = (\<lambda>w bucket_name. (g, w)),
      s3_put_bucket_tagging = (\<lambda>w bucket_name tag_set. (p, w)),
      route53resolver_tag_resource = (\<lambda>w arn tag_list. (r, w)),
      tag_resources = (\<lambda>w batch_arns tags. (t batch_arns, w))\<rparr>"

text \<open>Every call raises the same exception.\<close>

definition raising_env :: "exn \<Rightarrow> unit aws" where
  "raising_env e = stateless_env (Raises e) (Raises e) (Raises e) (Raises e) (\<lambda>batch_arns. Raises e)"

definition no_credentials :: exn where
  "no_credentials = OtherException ''Unable to locate credentials''"

definition read_timeout :: exn where
  "read_timeout = OtherException ''Read timeout on endpoint URL''"

definition access_denied :: exn where
  "access_denied = ClientError ''AccessDenied'' ''User is not authorized to perform this action''"

text \<open>
  Every call returns, buckets have no tags, and the bulk call reports as failed the
  identifiers of the request that are in \<open>bad\<close>.
\<close>

definition invalid_parameter :: failure_info where
  "invalid_parameter =
     \<lparr>ErrorCode = ''InvalidParameterException'', ErrorMessage = ''ARN is not valid''\<rparr>"

definition rejecting_env :: "string list \<Rightarrow> unit aws" where
  "rejecting_env bad =
     stateless_env (Returns ()) (Returns (Some [])) (Returns ()) (Returns ())
       (\<lambda>batch_arns.
          Returns (Some (map (\<lambda>arn. (arn, invalid_parameter))
                           (remdups (filter (\<lambda>arn. arn \<in> set bad) batch_arns)))))"

text \<open>
  Every call returns, except that the bulk call raises \<open>ThrottlingException\<close> for a
  request that contains \<open>hot\<close>.
\<close>

definition throttled :: exn where
  "throttled = ClientError ''ThrottlingException'' ''Rate exceeded''"

definition throttling_env :: "string \<Rightarrow> unit aws" where
  "throttling_env hot =
     stateless_env (Returns ()) (Returns (Some [])) (Returns ()) (Returns ())
       (\<lambda>batch_arns. if hot \<in> set batch_arns then Raises throttled else Returns (Some []))"

text \<open>Reading the tags of a bucket raises \<open>e\<close>; every other call returns.\<close>

definition unreadable_bucket_env :: "exn \<Rightarrow> unit aws" where
  "unreadable_bucket_env e =
     stateless_env (Returns ()) (Raises e) (Returns ()) (Returns ()) (\<lambda>batch_arns. Returns None)"

text \<open>
  An environment with one bucket, whose tag set is the state: reading returns it (and
  raises \<open>NoSuchTagSet\<close> when it is empty), writing replaces it.
\<close>

definition bucket_env :: "(string \<times> string) list aws" where
  "bucket_env =
     \<lparr>tagging_client = (\<lambda>w. (Returns (), w)),
      appconfig_tag_resource = (\<lambda>w arn tags. (Returns (), w)),
      s3_get_bucket_tagging =
        (\<lambda>w bucket_name.
           (if w = [] then Raises (ClientError ''NoSuchTagSet'' ''The TagSet does not exist'')
            else Returns (Some w), w)),
      s3_put_bucket_tagging = (\<lambda>w bucket_name tag_set. (Returns (), tag_set)),
      route53resolver_tag_resource = (\<lambda>w arn tag_list. (Returns (), w)),
      tag_resources = (\<lambda>w batch_arns tags. (Returns None, w))\<rparr>"

text \<open>
  The same bucket when its tags may not be read: reading raises \<open>AccessDenied\<close>, writing
  replaces the tag set.
\<close>

definition guarded_bucket_env :: "(string \<times> string) list aws" where
  "guarded_bucket_env = bucket_env\<lparr>s3_get_bucket_tagging := (\<lambda>w bucket_name. (Raises access_denied, w))\<rparr>"

text \<open>No region is configured: the client of line 109 cannot be built.\<close>

definition no_region :: exn where
  "no_region = OtherException ''You must specify a region.''"

definition no_region_env :: "unit aws" where
  "no_region_env = (rejecting_env [])\<lparr>tagging_client := (\<lambda>w. (Raises no_region, w))\<rparr>"

text \<open>
  Every call returns, except that the bulk call times out for a request that contains
  \<open>hot\<close>.
\<close>

definition bulk_timeout_env :: "string \<Rightarrow> unit aws" where
  "bulk_timeout_env hot =
     stateless_env (Returns ()) (Returns (Some [])) (Returns ()) (Returns ())
       (\<lambda>batch_arns. if hot \<in> set batch_arns then Raises read_timeout else Returns (Some []))"

text \<open>Identifiers of EC2 instances, one for each number.\<close>

definition instance_arn :: "nat \<Rightarrow> string" where
  "instance_arn n = ''arn:aws:ec2:us-east-1:123456789012:instance/i-'' @ replicate n (CHR ''0'')"

text \<open>Identifiers and tags of the examples.\<close>

definition web_instance :: string where
  "web_instance = ''arn:aws:ec2:us-east-1:123456789012:instance/i-0abc''"

definition bad_instance :: string where
  "bad_instance = ''arn:aws:ec2:us-east-1:123456789012:instance/i-0bad''"

definition my_bucket :: string where
  "my_bucket = ''arn:aws:s3:::my-bucket''"

definition my_application :: string where
  "my_application = ''arn:aws:appconfig:us-east-1:123456789012:application/abc1234''"

definition env_prod :: "(string, string) dict" where
  "env_prod = [(''env'', ''prod'')]"


section \<open>Splitting and trimming\<close>

text \<open>
  Splitting at a one-character separator gives the segments, which are characterised by
  two facts: no segment contains the separator, and joining them gives the string back.
\<close>

lemma segments_nonempty: "segments c s \<noteq> []"
  by (induction s) auto

lemma split_from_single:
  "split_from [c] cur s = (cur @ hd (segments c s)) # tl (segments c s)"
  by (induction s arbitrary: cur) (auto simp: segments_nonempty)

lemma py_split_single: "py_split [c] s = segments c s"
  by (simp add: py_split_def split_from_single segments_nonempty)

lemma hd_segments: "hd (segments c s) = takeWhile (\<lambda>x. x \<noteq> c) s"
  by (induction s) auto

lemma segments_no_sep: "p \<in> set (segments c s) \<Longrightarrow> c \<notin> set p"
proof (induction s arbitrary: p)
  case Nil
  then show ?case by simp
next
  case (Cons x xs)
  show ?case
  proof (cases "x = c")
    case True
    with Cons show ?thesis by auto
  next
    case False
    from segments_nonempty [of c xs] obtain q qs where q: "segments c xs = q # qs"
      by (cases "segments c xs") auto
    with Cons False show ?thesis by auto
  qed
qed

lemma join_segments: "py_join [c] (segments c s) = s"
proof (induction s)
  case Nil
  then show ?case by simp
next
  case (Cons x xs)
  from segments_nonempty [of c xs] obtain q qs where q: "segments c xs = q # qs"
    by (cases "segments c xs") auto
  with Cons show ?case by (cases qs) auto
qed

lemma splitn_from_once:
  "splitn_from [c] (Suc 0) cur s =
     (if c \<in> set s then [cur @ takeWhile (\<lambda>x. x \<noteq> c) s, drop 1 (dropWhile (\<lambda>x. x \<noteq> c) s)]
      else [cur @ s])"
  by (induction s arbitrary: cur) auto

lemma py_splitn_once:
  "c \<in> set s \<Longrightarrow>
   py_splitn [c] (Suc 0) s = [takeWhile (\<lambda>x. x \<noteq> c) s, drop 1 (dropWhile (\<lambda>x. x \<noteq> c) s)]"
  by (simp add: py_splitn_def splitn_from_once)

text \<open>
  Trimming removes only white space, and leaves none at either end.
\<close>

lemma strip_tail: "t = rev (dropWhile P (rev t)) @ rev (takeWhile P (rev t))"
proof -
  have "rev (takeWhile P (rev t) @ dropWhile P (rev t)) = rev (rev t)"
    by (simp only: takeWhile_dropWhile_id)
  then show ?thesis by (simp only: rev_append rev_rev_ident)
qed


lemma py_strip_decompose:
  "\<exists>a b. s = a @ py_strip s @ b \<and> list_all isspace a \<and> list_all isspace b"
proof -
  let ?t = "dropWhile isspace s"
  have 1: "s = takeWhile isspace s @ ?t" by simp
  have 2: "?t = py_strip s @ rev (takeWhile isspace (rev ?t))"
    unfolding py_strip_def by (rule strip_tail)
  have 3: "list_all isspace (takeWhile isspace s)"
    by (simp add: list_all_iff) (meson set_takeWhileD)
  have 4: "list_all isspace (rev (takeWhile isspace (rev ?t)))"
    by (simp add: list_all_iff) (meson set_takeWhileD)
  from 2 have "takeWhile isspace s @ ?t =
      takeWhile isspace s @ py_strip s @ rev (takeWhile isspace (rev ?t))"
    by (rule arg_cong)
  then have "s = takeWhile isspace s @ py_strip s @ rev (takeWhile isspace (rev ?t))"
    by (simp only: takeWhile_dropWhile_id)
  with 3 4 show ?thesis by blast
qed


lemma py_strip_ends:
  "py_strip s \<noteq> [] \<Longrightarrow> \<not> isspace (hd (py_strip s)) \<and> \<not> isspace (last (py_strip s))"
proof -
  assume ne: "py_strip s \<noteq> []"
  let ?t = "dropWhile isspace s"
  let ?u = "dropWhile isspace (rev ?t)"
  from ne have une: "?u \<noteq> []" by (simp add: py_strip_def)
  then have l: "\<not> isspace (hd ?u)" by (rule hd_dropWhile)
  have "last (py_strip s) = hd ?u" using une by (simp add: py_strip_def last_rev)
  with l have A: "\<not> isspace (last (py_strip s))" by simp
  have tne: "?t \<noteq> []"
  proof
    assume a: "?t = []"
    from une show False unfolding a by simp
  qed
  then have ht: "\<not> isspace (hd ?t)" by (rule hd_dropWhile)
  have "\<exists>b. ?t = py_strip s @ b"
    unfolding py_strip_def using strip_tail [of ?t isspace] by blast
  then obtain b where "?t = py_strip s @ b" ..
  with ne have "hd ?t = hd (py_strip s)" by (metis hd_append2)
  with ht A show ?thesis by simp
qed


section \<open>The tag string parser\<close>

lemma parse_tags_loop_fold:
  "parse_tags_loop ps tags =
     Inr (fold (\<lambda>kv acc. AList.update (fst kv) (snd kv) acc)
            (map (\<lambda>p. (py_strip (takeWhile (\<lambda>x. x \<noteq> CHR ''='') p),
                       py_strip (drop 1 (dropWhile (\<lambda>x. x \<noteq> CHR ''='') p))))
               (filter (\<lambda>p. CHR ''='' \<in> set p) ps)) tags)"
  by (induction ps arbitrary: tags) (simp_all add: py_splitn_once)

lemma parse_tags_pairs:
  "parse_tags (Some s) = Inr (fold (\<lambda>kv acc. AList.update (fst kv) (snd kv) acc) (tag_pairs s) [])"
proof (cases s)
  case Nil
  then show ?thesis by (simp add: parse_tags_def tag_pairs_def)
next
  case (Cons x xs)
  then show ?thesis
    by (simp add: parse_tags_def parse_tags_loop_fold py_split_single tag_pairs_def
        del: segments.simps)
qed

lemma map_of_fold_update:
  "map_of (fold (\<lambda>kv acc. AList.update (fst kv) (snd kv) acc) ps d) = map_of d ++ map_of (rev ps)"
proof (induction ps arbitrary: d)
  case Nil
  then show ?case by simp
next
  case (Cons p ps)
  have "(map_of d)(fst p \<mapsto> snd p) ++ map_of (rev ps) =
        map_of d ++ (map_of [p] ++ map_of (rev ps))"
    by (rule ext) (simp add: map_add_def split: option.splits)
  then show ?case
    by (simp add: Cons AList.update_conv' del: fun_upd_apply)
qed

lemma keys_fold_update:
  "fst ` set (fold (\<lambda>kv acc. AList.update (fst kv) (snd kv) acc) ps d) = fst ` set d \<union> fst ` set ps"
  by (induction ps arbitrary: d) (auto simp: AList.dom_update)

lemma distinct_fold_update:
  "distinct (map fst d) \<Longrightarrow>
   distinct (map fst (fold (\<lambda>kv acc. AList.update (fst kv) (snd kv) acc) ps d))"
  by (induction ps arbitrary: d) (auto simp: AList.distinct_update)

lemma map_of_rev_last:
  "map_of (rev ps) k =
     (case filter (\<lambda>p. fst p = k) ps of [] \<Rightarrow> None | q # qs \<Rightarrow> Some (snd (last (q # qs))))"
proof (induction ps rule: rev_induct)
  case Nil
  then show ?case by simp
next
  case (snoc p ps)
  then show ?case by (cases p) (auto split: list.splits)
qed

text \<open>
  Claim C8. \<open>parse_tags\<close> returns the empty dictionary for an absent and for an empty
  input. For every other string it returns a dictionary (it never raises) whose items
  are among the pairs of the string and whose keys are all the keys of these pairs,
  where the pairs are the comma-delimited fields that contain \<open>=\<close>, cut at the first
  \<open>=\<close>, with key and value trimmed; fields without \<open>=\<close> leave no trace. The tag
  string \<open>a=1,b=2,bad,c= 3 \<close> gives \<open>{a: 1, b: 2, c: 3}\<close>.
\<close>

theorem parse_tags_splits_and_trims:
  "parse_tags None = Inr [] \<and> parse_tags (Some []) = Inr [] \<and>
   (\<exists>d. parse_tags (Some s) = Inr d \<and> distinct (map fst d) \<and>
        set d \<subseteq> set (tag_pairs s) \<and> fst ` set d = fst ` set (tag_pairs s)) \<and>
   parse_tags (Some ''a=1,b=2,bad,c= 3 '') = Inr [(''a'', ''1''), (''b'', ''2''), (''c'', ''3'')]"
proof -
  let ?d = "fold (\<lambda>kv acc. AList.update (fst kv) (snd kv) acc) (tag_pairs s) []"
  have d: "distinct (map fst ?d)"
    by (rule distinct_fold_update) simp
  have sub: "set ?d \<subseteq> set (tag_pairs s)"
  proof
    fix kv assume "kv \<in> set ?d"
    with d have "map_of ?d (fst kv) = Some (snd kv)" by simp
    then have "map_of (rev (tag_pairs s)) (fst kv) = Some (snd kv)"
      by (simp add: map_of_fold_update)
    then have "(fst kv, snd kv) \<in> set (rev (tag_pairs s))" by (rule map_of_SomeD)
    then show "kv \<in> set (tag_pairs s)" by simp
  qed
  have keys: "fst ` set ?d = fst ` set (tag_pairs s)"
    by (simp add: keys_fold_update)
  have ex: "parse_tags (Some ''a=1,b=2,bad,c= 3 '') = Inr [(''a'', ''1''), (''b'', ''2''), (''c'', ''3'')]"
    by (simp add: parse_tags_def py_split_def py_splitn_def py_strip_def isspace_def)
  have e: "parse_tags None = Inr [] \<and> parse_tags (Some []) = Inr []"
    by (simp add: parse_tags_def)
  from d sub keys ex e show ?thesis
    by (simp add: parse_tags_pairs)
qed

text \<open>
  Claim C10. For every tag string and every key, the value that \<open>parse_tags\<close> stores
  under the key is the value of the last pair of the string with this key (and the key
  is absent when no pair has it): a later pair overwrites an earlier one.
\<close>

theorem parse_tags_last_pair_wins:
  "(\<exists>d. parse_tags (Some s) = Inr d \<and>
        map_of d k =
          (case filter (\<lambda>p. fst p = k) (tag_pairs s) of
             [] \<Rightarrow> None
           | q # qs \<Rightarrow> Some (snd (last (q # qs))))) \<and>
   parse_tags (Some ''a=1,b=2, a =3'') = Inr [(''a'', ''3''), (''b'', ''2'')]"
proof -
  have "parse_tags (Some ''a=1,b=2, a =3'') = Inr [(''a'', ''3''), (''b'', ''2'')]"
    by (simp add: parse_tags_def py_split_def py_splitn_def py_strip_def isspace_def)
  then show ?thesis
    by (simp add: parse_tags_pairs map_of_fold_update map_of_rev_last)
qed


section \<open>The identifier parser\<close>

lemma py_index_nat:
  "py_index xs (int n) = (if n < length xs then Inr (xs ! n) else Inl IndexError)"
  by (simp add: py_index_def)


text \<open>
  Claim C9. \<open>get_service_from_arn\<close> returns the third colon-delimited segment, and
  \<open>None\<close> when there are fewer than three; \<open>get_resource_type_from_arn\<close> returns
  \<open>None\<close> when there are fewer than six segments, the first slash-delimited segment of
  the sixth one when that contains a slash, and the whole sixth segment otherwise.
\<close>

theorem arn_segments:
  "get_service_from_arn arn =
     (if length (segments (CHR '':'') arn) < 3 then None
      else Some (segments (CHR '':'') arn ! 2)) \<and>
   get_resource_type_from_arn arn =
     (if length (segments (CHR '':'') arn) < 6 then None
      else if CHR ''/'' \<in> set (segments (CHR '':'') arn ! 5)
      then Some (hd (segments (CHR ''/'') (segments (CHR '':'') arn ! 5)))
      else Some (segments (CHR '':'') arn ! 5)) \<and>
   get_service_from_arn ''arn:aws:s3:::my-bucket'' = Some ''s3'' \<and>
   get_service_from_arn ''arn:aws:ec2:us-east-1:123:instance/i-1'' = Some ''ec2'' \<and>
   get_service_from_arn ''not-an-arn'' = None \<and>
   get_resource_type_from_arn ''arn:aws:ec2:us-east-1:123456789012:instance/i-0abc'' = Some ''instance''"
proof -
  have i2: "py_index xs 2 = (if 2 < length xs then Inr (xs ! 2) else Inl IndexError)" for xs :: "string list"
    using py_index_nat [of xs 2] by simp
  have i5: "py_index xs 5 = (if 5 < length xs then Inr (xs ! 5) else Inl IndexError)" for xs :: "string list"
    using py_index_nat [of xs 5] by simp
  have i0: "py_index xs 0 = (if 0 < length xs then Inr (xs ! 0) else Inl IndexError)" for xs :: "string list"
    using py_index_nat [of xs 0] by simp
  have s: "get_service_from_arn a =
     (if length (segments (CHR '':'') a) < 3 then None
      else Some (segments (CHR '':'') a ! 2))" for a
    by (simp add: get_service_from_arn_def py_split_single i2)
  have r: "get_resource_type_from_arn a =
     (if length (segments (CHR '':'') a) < 6 then None
      else if CHR ''/'' \<in> set (segments (CHR '':'') a ! 5)
      then Some (hd (segments (CHR ''/'') (segments (CHR '':'') a ! 5)))
      else Some (segments (CHR '':'') a ! 5))" for a
    by (auto simp add: get_resource_type_from_arn_def py_split_single i5 i0 Let_def
        segments_nonempty hd_conv_nth)
  have e1: "get_service_from_arn ''arn:aws:s3:::my-bucket'' = Some ''s3''"
    by (simp add: get_service_from_arn_def py_split_def py_index_def)
  have e2: "get_service_from_arn ''arn:aws:ec2:us-east-1:123:instance/i-1'' = Some ''ec2''"
    by (simp add: get_service_from_arn_def py_split_def py_index_def)
  have e3: "get_service_from_arn ''not-an-arn'' = None"
    by (simp add: get_service_from_arn_def py_split_def py_index_def)
  have e4: "get_resource_type_from_arn ''arn:aws:ec2:us-east-1:123456789012:instance/i-0abc'' = Some ''instance''"
    by (simp add: get_resource_type_from_arn_def py_split_def py_index_def)
  from s [of arn] r [of arn] e1 e2 e3 e4 show ?thesis by (simp only: simp_thms)
qed


section \<open>Batches\<close>

lemma batches_upt:
  "batches arns = map (\<lambda>k. take 20 (drop (k * 20) arns)) [0 ..< (length arns + 19) div 20]"
  by (simp add: batches_def py_range_step_def py_slice_def BATCH_SIZE_def comp_def add.commute)

lemma batches_Nil: "batches [] = []"
  by (simp add: batches_upt)

lemma batches_step:
  assumes "arns \<noteq> []"
  shows "batches arns = take 20 arns # batches (drop 20 arns)"
proof -
  from assms have pos: "0 < length arns" by simp
  have m: "(length arns + 19) div 20 = Suc ((length arns - 20 + 19) div 20)"
  proof (cases "length arns \<le> 20")
    case True
    from assms have "Suc 0 \<le> length arns" by (cases arns) simp_all
    with True have "(length arns + 19) div 20 = 1"
      by (intro div_nat_eqI) simp_all
    with True show ?thesis by simp
  next
    case False
    then have "length arns + 19 = (length arns - 20 + 19) + 20" by simp
    then have "(length arns + 19) div 20 = (length arns - 20 + 19 + 20) div 20" by simp
    also have "\<dots> = Suc ((length arns - 20 + 19) div 20)" by simp
    finally show ?thesis .
  qed
  have "[0 ..< Suc ((length arns - 20 + 19) div 20)] =
        0 # [Suc 0 ..< Suc ((length arns - 20 + 19) div 20)]"
    by (rule upt_conv_Cons) simp
  also have "[Suc 0 ..< Suc ((length arns - 20 + 19) div 20)] =
        map Suc [0 ..< (length arns - 20 + 19) div 20]"
    by (rule map_Suc_upt [symmetric])
  finally have u: "[0 ..< (length arns + 19) div 20] =
        0 # map Suc [0 ..< (length arns - 20 + 19) div 20]"
    by (simp only: m)
  have "batches arns = map (\<lambda>k. take 20 (drop (k * 20) arns)) (0 # map Suc [0 ..< (length arns - 20 + 19) div 20])"
    by (simp only: batches_upt u)
  also have "\<dots> = take 20 arns # map (\<lambda>k. take 20 (drop (k * 20) (drop 20 arns))) [0 ..< (length arns - 20 + 19) div 20]"
    by (simp add: comp_def add.commute del: upt_Suc)
  also have "\<dots> = take 20 arns # batches (drop 20 arns)"
    by (simp only: batches_upt length_drop)
  finally show ?thesis .
qed

lemma concat_batches: "concat (batches arns) = arns"
proof (induction "length arns" arbitrary: arns rule: less_induct)
  case less
  show ?case
  proof (cases "arns = []")
    case True
    then show ?thesis by (simp add: batches_Nil)
  next
    case False
    then have "length (drop 20 arns) < length arns" by simp
    then have "concat (batches (drop 20 arns)) = drop 20 arns" by (rule less)
    with False show ?thesis by (simp add: batches_step)
  qed
qed

lemma batches_sizes:
  "b \<in> set (batches arns) \<Longrightarrow> b \<noteq> [] \<and> length b \<le> 20"
proof (induction "length arns" arbitrary: arns rule: less_induct)
  case less
  show ?case
  proof (cases "arns = []")
    case True
    with less.prems show ?thesis by (simp add: batches_Nil)
  next
    case False
    then have l: "length (drop 20 arns) < length arns" by simp
    from less.prems False have "b = take 20 arns \<or> b \<in> set (batches (drop 20 arns))"
      by (simp add: batches_step)
    then show ?thesis
    proof
      assume "b = take 20 arns"
      with False show ?thesis by simp
    next
      assume "b \<in> set (batches (drop 20 arns))"
      with l show ?thesis by (rule less.hyps)
    qed
  qed
qed

lemma batches_full:
  "b \<in> set (butlast (batches arns)) \<Longrightarrow> length b = 20"
proof (induction "length arns" arbitrary: arns rule: less_induct)
  case less
  show ?case
  proof (cases "arns = []")
    case True
    with less.prems show ?thesis by (simp add: batches_Nil)
  next
    case False
    then have l: "length (drop 20 arns) < length arns" by simp
    show ?thesis
    proof (cases "batches (drop 20 arns) = []")
      case True
      with less.prems False show ?thesis by (simp add: batches_step)
    next
      case ne: False
      then have "drop 20 arns \<noteq> []" by (auto simp: batches_Nil)
      then have long: "20 < length arns" by simp
      from less.prems False ne
      have "b = take 20 arns \<or> b \<in> set (butlast (batches (drop 20 arns)))"
        by (simp add: batches_step)
      then show ?thesis
      proof
        assume "b = take 20 arns"
        with long show ?thesis by simp
      next
        assume "b \<in> set (butlast (batches (drop 20 arns)))"
        with l show ?thesis by (rule less.hyps)
      qed
    qed
  qed
qed

lemma length_batches: "length (batches arns) = (length arns + 19) div 20"
  by (simp add: batches_upt)

lemma batches_45:
  assumes "length arns = 45"
  shows "batches arns = [take 20 arns, take 20 (drop 20 arns), drop 40 arns]"
proof -
  from assms have 1: "arns \<noteq> []" by auto
  from assms have 2: "drop 20 arns \<noteq> []" by auto
  from assms have 3: "drop 40 arns \<noteq> []" by auto
  from assms have 4: "drop 60 arns = []" by auto
  have "batches arns = take 20 arns # batches (drop 20 arns)"
    using 1 by (rule batches_step)
  also have "batches (drop 20 arns) = take 20 (drop 20 arns) # batches (drop 40 arns)"
    using batches_step [OF 2] by simp
  also have "batches (drop 40 arns) = take 20 (drop 40 arns) # batches (drop 60 arns)"
    using batches_step [OF 3] by simp
  also have "batches (drop 60 arns) = []"
    by (simp only: 4 batches_Nil)
  also have "take 20 (drop 40 arns) = drop 40 arns"
    using assms by simp
  finally show ?thesis .
qed


section \<open>Events and dictionaries of the loops\<close>

lemma bulk_calls_append: "bulk_calls (xs @ ys) = bulk_calls xs @ bulk_calls ys"
  by (induction xs rule: bulk_calls.induct) simp_all

lemma bucket_writes_append: "bucket_writes (xs @ ys) = bucket_writes xs @ bucket_writes ys"
  by (induction xs rule: bucket_writes.induct) simp_all

lemma read_existing_tags_no_bulk:
  "read_existing_tags env w bucket_name = (r, evs, w') \<Longrightarrow> bulk_calls evs = []"
  by (auto simp: read_existing_tags_def Let_def split: prod.splits outcome.splits exn.splits)

lemma adapter_no_bulk:
  assumes "tag_resource_with_service_api env arn tags service w = (ok, evs, w')"
  shows "bulk_calls evs = []"
proof -
  consider (a) "service = Some ''appconfig''" | (s) "service = Some ''s3''"
    | (r) "service = Some ''route53resolver''"
    | (o) "service \<noteq> Some ''appconfig''" "service \<noteq> Some ''s3''" "service \<noteq> Some ''route53resolver''"
    by blast
  then show ?thesis
  proof cases
    case a
    with assms show ?thesis
      by (auto simp: tag_resource_with_service_api_def split: prod.splits outcome.splits)
  next
    case s
    show ?thesis
    proof (cases "py_index (py_split '':::'' arn) (- 1)")
      case (Inl err)
      with assms s show ?thesis
        by (auto simp: tag_resource_with_service_api_def)
    next
      case (Inr bucket_name)
      obtain x evs0 w1 where re: "read_existing_tags env w bucket_name = (x, evs0, w1)"
        by (cases "read_existing_tags env w bucket_name") auto
      then have "bulk_calls evs0 = []" by (rule read_existing_tags_no_bulk)
      with assms s Inr re show ?thesis
        by (cases x)
          (auto simp: tag_resource_with_service_api_def Let_def bulk_calls_append
            split: prod.splits outcome.splits)
    qed
  next
    case r
    with assms show ?thesis
      by (auto simp: tag_resource_with_service_api_def split: prod.splits outcome.splits)
  next
    case o
    with assms show ?thesis
      by (auto simp: tag_resource_with_service_api_def)
  qed
qed

lemma process_service_specific_bulk_calls:
  "bulk_calls (trace (process_service_specific env tags arns st)) = bulk_calls (trace st)"
proof (induction arns arbitrary: st)
  case Nil
  then show ?case by simp
next
  case (Cons arn arns)
  obtain ok evs w' where
    r: "tag_resource_with_service_api env arn tags (get_service_from_arn arn) (world st) = (ok, evs, w')"
    by (cases "tag_resource_with_service_api env arn tags (get_service_from_arn arn) (world st)") auto
  from r have "bulk_calls evs = []" by (rule adapter_no_bulk)
  with r show ?case by (simp add: Cons bulk_calls_append)
qed

lemma process_batch_trace:
  "trace (snd (process_batch env tags batch_arns st)) = trace st @ [Call_tag_resources batch_arns tags]"
  by (simp add: process_batch_def Let_def split: prod.splits outcome.splits exn.splits)

lemma process_batches_calls:
  "\<exists>n\<le>length chunks.
     bulk_calls (trace (snd (process_batches env tags chunks st))) =
       bulk_calls (trace st) @ map (\<lambda>b. (b, tags)) (take n chunks) \<and>
     (fst (process_batches env tags chunks st) = None \<longrightarrow> n = length chunks)"
proof (induction chunks arbitrary: st)
  case Nil
  then show ?case by simp
next
  case (Cons b chunks)
  obtain ex st' where pb: "process_batch env tags b st = (ex, st')"
    by (cases "process_batch env tags b st") auto
  then have tr: "trace st' = trace st @ [Call_tag_resources b tags]"
    using process_batch_trace [of env tags b st] by simp
  have step: "process_batches env tags (b # chunks) st =
      (case ex of None \<Rightarrow> process_batches env tags chunks st' | Some e \<Rightarrow> (Some e, st'))"
    by (simp add: pb)
  have calls: "bulk_calls (trace st') = bulk_calls (trace st) @ [(b, tags)]"
    by (simp add: tr bulk_calls_append)
  show ?case
  proof (cases ex)
    case None
    from Cons [of st'] obtain n where n: "n \<le> length chunks"
      and c: "bulk_calls (trace (snd (process_batches env tags chunks st'))) =
         bulk_calls (trace st') @ map (\<lambda>b. (b, tags)) (take n chunks)"
      and f: "fst (process_batches env tags chunks st') = None \<longrightarrow> n = length chunks"
      by (elim exE conjE)
    have eq: "process_batches env tags (b # chunks) st = process_batches env tags chunks st'"
      by (simp only: step None option.case)
    have 1: "Suc n \<le> length (b # chunks)" using n by simp
    have 2: "bulk_calls (trace (snd (process_batches env tags (b # chunks) st))) =
       bulk_calls (trace st) @ map (\<lambda>b. (b, tags)) (take (Suc n) (b # chunks))"
      by (simp only: eq c calls) simp
    have 3: "fst (process_batches env tags (b # chunks) st) = None \<longrightarrow>
       Suc n = length (b # chunks)"
      using f by (simp only: eq) simp
    show ?thesis
    proof (intro exI conjI)
      show "Suc n \<le> length (b # chunks)" by (rule 1)
      show "bulk_calls (trace (snd (process_batches env tags (b # chunks) st))) =
        bulk_calls (trace st) @ map (\<lambda>b. (b, tags)) (take (Suc n) (b # chunks))" by (rule 2)
      show "fst (process_batches env tags (b # chunks) st) = None \<longrightarrow>
        Suc n = length (b # chunks)" by (rule 3)
    qed
  next
    case (Some e)
    have eq: "process_batches env tags (b # chunks) st = (Some e, st')"
      by (simp only: step Some option.case)
    have 1: "Suc 0 \<le> length (b # chunks)" by simp
    have 2: "bulk_calls (trace (snd (process_batches env tags (b # chunks) st))) =
       bulk_calls (trace st) @ map (\<lambda>b. (b, tags)) (take (Suc 0) (b # chunks))"
      by (simp only: eq snd_conv calls) simp
    have 3: "fst (process_batches env tags (b # chunks) st) = None \<longrightarrow>
       Suc 0 = length (b # chunks)"
      by (simp only: eq) simp
    show ?thesis
    proof (intro exI conjI)
      show "Suc 0 \<le> length (b # chunks)" by (rule 1)
      show "bulk_calls (trace (snd (process_batches env tags (b # chunks) st))) =
        bulk_calls (trace st) @ map (\<lambda>b. (b, tags)) (take (Suc 0) (b # chunks))" by (rule 2)
      show "fst (process_batches env tags (b # chunks) st) = None \<longrightarrow>
        Suc 0 = length (b # chunks)" by (rule 3)
    qed
  qed
qed

lemma length_fold_update:
  "distinct (map fst e) \<Longrightarrow> fst ` set e \<inter> fst ` set d = {} \<Longrightarrow>
   length (fold (\<lambda>kv acc. AList.update (fst kv) (snd kv) acc) e d) = length d + length e"
proof (induction e arbitrary: d)
  case Nil
  then show ?case by simp
next
  case (Cons kv e)
  from Cons.prems have new: "fst kv \<notin> fst ` set d" by auto
  then have "length (map fst (AList.update (fst kv) (snd kv) d)) = Suc (length d)"
    by (simp only: AList.update_keys) simp
  then have len: "length (AList.update (fst kv) (snd kv) d) = Suc (length d)"
    by simp
  from Cons.prems have d: "distinct (map fst e)" by simp
  from Cons.prems have "fst ` set e \<inter> fst ` set (AList.update (fst kv) (snd kv) d) = {}"
    by (auto simp: AList.dom_update)
  with d have "length (fold (\<lambda>kv acc. AList.update (fst kv) (snd kv) acc) e
      (AList.update (fst kv) (snd kv) d)) = length (AList.update (fst kv) (snd kv) d) + length e"
    by (rule Cons.IH)
  with len show ?case by simp
qed

lemma mark_batch_failed_dict_update:
  "mark_batch_failed batch_arns code msg failed =
     dict_update failed (map (\<lambda>arn. (arn, \<lparr>ErrorCode = code, ErrorMessage = msg\<rparr>)) batch_arns)"
  by (simp add: mark_batch_failed_def dict_update_def fold_map comp_def)

lemma map_of_mark_batch_failed:
  "map_of (mark_batch_failed batch_arns code msg failed) arn =
     (if arn \<in> set batch_arns then Some \<lparr>ErrorCode = code, ErrorMessage = msg\<rparr>
      else map_of failed arn)"
  unfolding mark_batch_failed_def
proof (induction batch_arns arbitrary: failed)
  case Nil
  then show ?case by simp
next
  case (Cons a batch_arns)
  show ?case by (simp add: Cons AList.update_conv')
qed

lemma keys_dict_update: "fst ` set (dict_update d e) = fst ` set d \<union> fst ` set e"
  by (simp add: dict_update_def keys_fold_update)

lemma distinct_dict_update:
  "distinct (map fst d) \<Longrightarrow> distinct (map fst (dict_update d e))"
  by (simp add: dict_update_def distinct_fold_update)

lemma length_dict_update:
  "distinct (map fst e) \<Longrightarrow> fst ` set e \<inter> fst ` set d = {} \<Longrightarrow>
   length (dict_update d e) = length d + length e"
  by (simp add: dict_update_def length_fold_update)

lemma map_of_dict_update: "map_of (dict_update d e) = map_of d ++ map_of (rev e)"
  by (simp add: dict_update_def map_of_fold_update)

lemma process_batches_append:
  "process_batches env tags (xs @ ys) st =
     (case process_batches env tags xs st of
        (None, st1) \<Rightarrow> process_batches env tags ys st1
      | (Some e, st1) \<Rightarrow> (Some e, st1))"
proof (induction xs arbitrary: st)
  case Nil
  then show ?case by simp
next
  case (Cons b xs)
  obtain ex st' where pb: "process_batch env tags b st = (ex, st')"
    by (cases "process_batch env tags b st") auto
  show ?case
    by (cases ex) (simp_all add: pb Cons)
qed

lemma process_batch_client_error:
  assumes "tag_resources env (world st) batch_arns tags = (Raises (ClientError code msg), w')"
  shows "process_batch env tags batch_arns st =
     (None, st\<lparr>world := w', trace := trace st @ [Call_tag_resources batch_arns tags],
               total_failed := mark_batch_failed batch_arns code msg (total_failed st)\<rparr>)"
  using assms by (simp add: process_batch_def)


section \<open>Accounting\<close>

lemma length_update_new:
  "k \<notin> fst ` set d \<Longrightarrow> length (AList.update k v d) = Suc (length d)"
proof -
  assume "k \<notin> fst ` set d"
  then have "length (map fst (AList.update k v d)) = Suc (length d)"
    by (simp only: AList.update_keys) simp
  then show ?thesis by simp
qed

lemma process_service_specific_accounting:
  assumes "distinct arns"
    and "set arns \<inter> fst ` set (total_failed st) = {}"
    and "distinct (map fst (total_failed st))"
  shows "total_success_count (process_service_specific env tags arns st) +
           int (length (total_failed (process_service_specific env tags arns st))) =
         total_success_count st + int (length (total_failed st)) + int (length arns) \<and>
         fst ` set (total_failed (process_service_specific env tags arns st)) \<subseteq>
           fst ` set (total_failed st) \<union> set arns \<and>
         distinct (map fst (total_failed (process_service_specific env tags arns st)))"
  using assms
proof (induction arns arbitrary: st)
  case Nil
  then show ?case by simp
next
  case (Cons arn arns)
  obtain ok evs w' where
    r: "tag_resource_with_service_api env arn tags (get_service_from_arn arn) (world st) = (ok, evs, w')"
    by (cases "tag_resource_with_service_api env arn tags (get_service_from_arn arn) (world st)") auto
  from Cons.prems have d: "distinct arns" and notin: "arn \<notin> set arns"
    and new: "arn \<notin> fst ` set (total_failed st)"
    and disj: "set arns \<inter> fst ` set (total_failed st) = {}"
    by auto
  show ?case
  proof (cases ok)
    case True
    let ?st1 = "st\<lparr>world := w', trace := trace st @ evs,
                   total_success_count := total_success_count st + 1\<rparr>"
    have step: "process_service_specific env tags (arn # arns) st =
        process_service_specific env tags arns ?st1"
      by (simp add: r True)
    have "set arns \<inter> fst ` set (total_failed ?st1) = {}" using disj by simp
    moreover have "distinct (map fst (total_failed ?st1))" using Cons.prems(3) by simp
    ultimately have IH: "total_success_count (process_service_specific env tags arns ?st1) +
           int (length (total_failed (process_service_specific env tags arns ?st1))) =
         total_success_count ?st1 + int (length (total_failed ?st1)) + int (length arns) \<and>
         fst ` set (total_failed (process_service_specific env tags arns ?st1)) \<subseteq>
           fst ` set (total_failed ?st1) \<union> set arns \<and>
         distinct (map fst (total_failed (process_service_specific env tags arns ?st1)))"
      using d by (intro Cons.IH)
    then show ?thesis unfolding step by auto
  next
    case False
    let ?f = "AList.update arn (service_specific_failure (get_service_from_arn arn)) (total_failed st)"
    let ?st1 = "st\<lparr>world := w', trace := trace st @ evs, total_failed := ?f\<rparr>"
    have step: "process_service_specific env tags (arn # arns) st =
        process_service_specific env tags arns ?st1"
      by (simp add: r False)
    have len: "length ?f = Suc (length (total_failed st))"
      using new by (rule length_update_new)
    have keys: "fst ` set ?f = insert arn (fst ` set (total_failed st))"
      by (simp add: AList.dom_update)
    have "set arns \<inter> fst ` set (total_failed ?st1) = {}"
      using disj notin by (simp add: keys)
    moreover have "distinct (map fst (total_failed ?st1))"
      using Cons.prems(3) by (simp add: AList.distinct_update)
    ultimately have IH: "total_success_count (process_service_specific env tags arns ?st1) +
           int (length (total_failed (process_service_specific env tags arns ?st1))) =
         total_success_count ?st1 + int (length (total_failed ?st1)) + int (length arns) \<and>
         fst ` set (total_failed (process_service_specific env tags arns ?st1)) \<subseteq>
           fst ` set (total_failed ?st1) \<union> set arns \<and>
         distinct (map fst (total_failed (process_service_specific env tags arns ?st1)))"
      using d by (intro Cons.IH)
    then show ?thesis unfolding step using len keys by auto
  qed
qed

lemma bulk_well_formedD:
  assumes "bulk_well_formed env"
    and "tag_resources env w batch_arns tags = (Returns (Some m), w')"
  shows "distinct (map fst m) \<and> fst ` set m \<subseteq> set batch_arns"
proof -
  from assms(1) have "tag_resources env w batch_arns tags = (Returns (Some m), w') \<longrightarrow>
      distinct (map fst m) \<and> fst ` set m \<subseteq> set batch_arns"
    unfolding bulk_well_formed_def by (elim allE)
  with assms(2) show ?thesis by (rule rev_mp)
qed

lemma process_batch_accounting:
  assumes wf: "bulk_well_formed env"
    and db: "distinct b"
    and disj: "set b \<inter> fst ` set (total_failed st) = {}"
    and dk: "distinct (map fst (total_failed st))"
    and run: "process_batch env tags b st = (None, st')"
  shows "total_success_count st' + int (length (total_failed st')) =
         total_success_count st + int (length (total_failed st)) + int (length b) \<and>
         fst ` set (total_failed st') \<subseteq> fst ` set (total_failed st) \<union> set b \<and>
         distinct (map fst (total_failed st'))"
proof -
  obtain out w' where t: "tag_resources env (world st) b tags = (out, w')"
    by (cases "tag_resources env (world st) b tags") auto
  show ?thesis
  proof (cases out)
    case (Returns response)
    define m where "m = (case response of None \<Rightarrow> [] | Some m \<Rightarrow> m)"
    have m: "distinct (map fst m) \<and> fst ` set m \<subseteq> set b"
    proof (cases response)
      case None
      then show ?thesis by (simp add: m_def)
    next
      case (Some m')
      with t Returns have "tag_resources env (world st) b tags = (Returns (Some m'), w')"
        by simp
      with wf have "distinct (map fst m') \<and> fst ` set m' \<subseteq> set b"
        by (rule bulk_well_formedD)
      with Some show ?thesis by (simp add: m_def)
    qed
    from run t Returns have st': "st' = st\<lparr>world := w',
        trace := trace st @ [Call_tag_resources b tags],
        total_success_count := total_success_count st + (int (length b) - int (length m)),
        total_failed := dict_update (total_failed st) m\<rparr>"
      by (simp add: process_batch_def m_def Let_def)
    from m disj have "fst ` set m \<inter> fst ` set (total_failed st) = {}" by auto
    with m have len: "length (dict_update (total_failed st) m) = length (total_failed st) + length m"
      by (intro length_dict_update) simp_all
    have keys: "fst ` set (dict_update (total_failed st) m) \<subseteq> fst ` set (total_failed st) \<union> set b"
      using m by (auto simp: keys_dict_update)
    have dis: "distinct (map fst (dict_update (total_failed st) m))"
      using dk by (rule distinct_dict_update)
    from len keys dis show ?thesis by (simp add: st')
  next
    case (Raises e)
    show ?thesis
    proof (cases e)
      case (ClientError code msg)
      let ?m = "map (\<lambda>arn. (arn, \<lparr>ErrorCode = code, ErrorMessage = msg\<rparr>)) b"
      from run t Raises ClientError have st': "st' = st\<lparr>world := w',
          trace := trace st @ [Call_tag_resources b tags],
          total_failed := dict_update (total_failed st) ?m\<rparr>"
        by (simp add: process_batch_def mark_batch_failed_dict_update)
      have km: "map fst ?m = b" by (simp add: comp_def)
      then have sm: "fst ` set ?m = set b" by (metis list.set_map)
      have "distinct (map fst ?m)" using db by (simp only: km)
      moreover have "fst ` set ?m \<inter> fst ` set (total_failed st) = {}"
        using disj by (simp only: sm)
      ultimately have "length (dict_update (total_failed st) ?m) = length (total_failed st) + length ?m"
        by (rule length_dict_update)
      then have len: "length (dict_update (total_failed st) ?m) = length (total_failed st) + length b"
        by simp
      have keys: "fst ` set (dict_update (total_failed st) ?m) = fst ` set (total_failed st) \<union> set b"
        by (simp only: keys_dict_update sm)
      have dis: "distinct (map fst (dict_update (total_failed st) ?m))"
        using dk by (rule distinct_dict_update)
      from len keys dis show ?thesis by (simp add: st')
    next
      case (OtherException x)
      with run t Raises show ?thesis by (simp add: process_batch_def)
    qed
  qed
qed

lemma process_batches_accounting:
  assumes "bulk_well_formed env"
    and "distinct (concat chunks)"
    and "set (concat chunks) \<inter> fst ` set (total_failed st) = {}"
    and "distinct (map fst (total_failed st))"
    and "process_batches env tags chunks st = (None, st')"
  shows "total_success_count st' + int (length (total_failed st')) =
         total_success_count st + int (length (total_failed st)) + int (length (concat chunks)) \<and>
         fst ` set (total_failed st') \<subseteq> fst ` set (total_failed st) \<union> set (concat chunks) \<and>
         distinct (map fst (total_failed st'))"
  using assms
proof (induction chunks arbitrary: st)
  case Nil
  then show ?case by simp
next
  case (Cons b chunks)
  obtain ex st1 where pb: "process_batch env tags b st = (ex, st1)"
    by (cases "process_batch env tags b st") auto
  have ex: "ex = None"
  proof (cases ex)
    case None
    then show ?thesis .
  next
    case (Some e)
    with pb Cons.prems(5) show ?thesis by simp
  qed
  with pb Cons.prems(5) have rest: "process_batches env tags chunks st1 = (None, st')" by simp
  from Cons.prems(2) have db: "distinct b" and dc: "distinct (concat chunks)"
    and bc: "set b \<inter> set (concat chunks) = {}"
    by simp_all
  have split: "set (concat (b # chunks)) = set b \<union> set (concat chunks)" by simp
  from Cons.prems(3) have bk: "set b \<inter> fst ` set (total_failed st) = {}"
    and ck: "set (concat chunks) \<inter> fst ` set (total_failed st) = {}"
    unfolding split by blast+
  from pb ex have pb': "process_batch env tags b st = (None, st1)" by simp
  have A: "total_success_count st1 + int (length (total_failed st1)) =
         total_success_count st + int (length (total_failed st)) + int (length b) \<and>
         fst ` set (total_failed st1) \<subseteq> fst ` set (total_failed st) \<union> set b \<and>
         distinct (map fst (total_failed st1))"
    using Cons.prems(1) db bk Cons.prems(4) pb' by (rule process_batch_accounting)
  then have sub: "fst ` set (total_failed st1) \<subseteq> fst ` set (total_failed st) \<union> set b"
    by (elim conjE)
  from sub ck bc have "set (concat chunks) \<inter> fst ` set (total_failed st1) = {}"
    by blast
  moreover from A have "distinct (map fst (total_failed st1))" by (elim conjE)
  ultimately have B: "total_success_count st' + int (length (total_failed st')) =
         total_success_count st1 + int (length (total_failed st1)) + int (length (concat chunks)) \<and>
         fst ` set (total_failed st') \<subseteq> fst ` set (total_failed st1) \<union> set (concat chunks) \<and>
         distinct (map fst (total_failed st'))"
    using Cons.prems(1) dc rest by (intro Cons.IH)
  from A have a1: "total_success_count st1 + int (length (total_failed st1)) =
         total_success_count st + int (length (total_failed st)) + int (length b)"
    by (elim conjE)
  note b1 = B [THEN conjunct1]
  note b2 = B [THEN conjunct2, THEN conjunct1]
  note b3 = B [THEN conjunct2, THEN conjunct2]
  have c1: "total_success_count st' + int (length (total_failed st')) =
         total_success_count st + int (length (total_failed st)) + int (length (concat (b # chunks)))"
    using a1 b1 by simp
  have c2: "fst ` set (total_failed st') \<subseteq> fst ` set (total_failed st) \<union> set (concat (b # chunks))"
    unfolding split using sub b2 by blast
  from c1 c2 b3 show ?case by (intro conjI)
qed

lemma partition_lengths:
  "length (service_specific_arns arns) + length (resource_groups_arns arns) = length arns"
  by (simp add: service_specific_arns_def resource_groups_arns_def sum_length_filter_compl)

lemma partition_sets:
  "set (service_specific_arns arns) \<union> set (resource_groups_arns arns) = set arns"
  "set (service_specific_arns arns) \<inter> set (resource_groups_arns arns) = {}"
  by (auto simp: service_specific_arns_def resource_groups_arns_def)

lemma partition_distinct:
  "distinct arns \<Longrightarrow> distinct (service_specific_arns arns) \<and> distinct (resource_groups_arns arns)"
  by (simp add: service_specific_arns_def resource_groups_arns_def)

lemma batch_engine_accounting:
  assumes wf: "bulk_well_formed env"
    and d: "distinct rg"
    and disj: "set rg \<inter> fst ` set (total_failed st) = {}"
    and dk: "distinct (map fst (total_failed st))"
    and run: "batch_engine env tags rg st = (None, st')"
  shows "total_success_count st' + int (length (total_failed st')) =
         total_success_count st + int (length (total_failed st)) + int (length rg) \<and>
         fst ` set (total_failed st') \<subseteq> fst ` set (total_failed st) \<union> set rg \<and>
         distinct (map fst (total_failed st'))"
proof (cases "rg = []")
  case True
  with run have "st' = st" by (simp add: batch_engine_def)
  with True dk show ?thesis by simp
next
  case False
  with run have r: "process_batches env tags (batches rg) st = (None, st')"
    by (simp add: batch_engine_def)
  have c: "concat (batches rg) = rg" by (rule concat_batches)
  from d have 1: "distinct (concat (batches rg))" by (simp only: c)
  from disj have 2: "set (concat (batches rg)) \<inter> fst ` set (total_failed st) = {}"
    by (simp only: c)
  from process_batches_accounting [OF wf 1 2 dk r] show ?thesis by (simp only: c)
qed

lemma process_batch_other_exception:
  assumes "tag_resources env (world st) batch_arns tags = (Raises (OtherException m), w')"
  shows "process_batch env tags batch_arns st =
     (Some (OtherException m),
      st\<lparr>world := w', trace := trace st @ [Call_tag_resources batch_arns tags]\<rparr>)"
  using assms by (simp add: process_batch_def)

lemma process_batch_no_escape:
  assumes "\<And>w b m. fst (tag_resources env w b tags) \<noteq> Raises (OtherException m)"
  shows "fst (process_batch env tags b st) = None"
proof -
  obtain out w' where t: "tag_resources env (world st) b tags = (out, w')"
    by (cases "tag_resources env (world st) b tags") auto
  show ?thesis
  proof (cases out)
    case (Returns r)
    with t show ?thesis by (simp add: process_batch_def Let_def)
  next
    case (Raises e)
    show ?thesis
    proof (cases e)
      case (ClientError code msg)
      with t Raises show ?thesis by (simp add: process_batch_def)
    next
      case (OtherException m)
      with t Raises assms [of "world st" b m] show ?thesis by simp
    qed
  qed
qed

lemma process_batches_no_escape:
  assumes "\<And>w b m. fst (tag_resources env w b tags) \<noteq> Raises (OtherException m)"
  shows "fst (process_batches env tags chunks st) = None"
proof (induction chunks arbitrary: st)
  case Nil
  then show ?case by simp
next
  case (Cons b chunks)
  obtain ex st1 where pb: "process_batch env tags b st = (ex, st1)"
    by (cases "process_batch env tags b st") auto
  with process_batch_no_escape [of env tags b st, OF assms] have "ex = None" by simp
  with pb show ?case by (simp add: Cons)
qed

lemma batch_engine_calls:
  "\<exists>n\<le>length (batches rg).
     bulk_calls (trace (snd (batch_engine env tags rg st))) =
       bulk_calls (trace st) @ map (\<lambda>b. (b, tags)) (take n (batches rg)) \<and>
     (fst (batch_engine env tags rg st) = None \<longrightarrow> n = length (batches rg))"
proof (cases "rg = []")
  case True
  show ?thesis
  proof (intro exI conjI)
    show "0 \<le> length (batches rg)" by simp
    show "bulk_calls (trace (snd (batch_engine env tags rg st))) =
       bulk_calls (trace st) @ map (\<lambda>b. (b, tags)) (take 0 (batches rg))"
      using True by (simp add: batch_engine_def)
    show "fst (batch_engine env tags rg st) = None \<longrightarrow> 0 = length (batches rg)"
      using True by (simp add: batches_Nil)
  qed
next
  case False
  then have "batch_engine env tags rg st = process_batches env tags (batches rg) st"
    by (simp add: batch_engine_def)
  then show ?thesis by (simp only: process_batches_calls)
qed

lemma instance_arn_not_service_specific: "\<not> is_service_specific (instance_arn n)"
  by (simp add: is_service_specific_def get_service_from_arn_def py_split_def py_index_def
      instance_arn_def unsupported_services_def)

lemma instances_resource_groups:
  "resource_groups_arns (map instance_arn ns) = map instance_arn ns"
  "service_specific_arns (map instance_arn ns) = []"
  by (simp_all add: resource_groups_arns_def service_specific_arns_def
      instance_arn_not_service_specific)

lemma map_of_dict_update_other:
  "k \<notin> fst ` set e \<Longrightarrow> map_of (dict_update d e) k = map_of d k"
proof -
  assume "k \<notin> fst ` set e"
  then have "k \<notin> fst ` set (rev e)" by simp
  then have "map_of (rev e) k = None" by (rule map_of_eq_None_iff [THEN iffD2])
  then show ?thesis by (simp add: map_of_dict_update map_add_def)
qed

lemma process_batch_preserves:
  assumes wf: "bulk_well_formed env" and notin: "arn \<notin> set b"
  shows "map_of (total_failed (snd (process_batch env tags b st))) arn = map_of (total_failed st) arn"
proof -
  obtain out w' where t: "tag_resources env (world st) b tags = (out, w')"
    by (cases "tag_resources env (world st) b tags") auto
  show ?thesis
  proof (cases out)
    case (Returns response)
    show ?thesis
    proof (cases response)
      case None
      with t Returns show ?thesis by (simp add: process_batch_def dict_update_def)
    next
      case (Some m)
      with t Returns have "tag_resources env (world st) b tags = (Returns (Some m), w')" by simp
      with wf have "distinct (map fst m) \<and> fst ` set m \<subseteq> set b" by (rule bulk_well_formedD)
      with notin have "arn \<notin> fst ` set m" by blast
      then have "map_of (dict_update (total_failed st) m) arn = map_of (total_failed st) arn"
        by (rule map_of_dict_update_other)
      with t Returns Some show ?thesis by (simp add: process_batch_def)
    qed
  next
    case (Raises e)
    show ?thesis
    proof (cases e)
      case (ClientError code msg)
      with t Raises notin show ?thesis
        by (simp add: process_batch_def map_of_mark_batch_failed)
    next
      case (OtherException m)
      with t Raises show ?thesis by (simp add: process_batch_def)
    qed
  qed
qed

lemma process_batches_preserves:
  assumes wf: "bulk_well_formed env"
  shows "arn \<notin> set (concat chunks) \<Longrightarrow>
    map_of (total_failed (snd (process_batches env tags chunks st))) arn = map_of (total_failed st) arn"
proof (induction chunks arbitrary: st)
  case Nil
  then show ?case by simp
next
  case (Cons b chunks)
  from Cons.prems have nb: "arn \<notin> set b" and nc: "arn \<notin> set (concat chunks)" by simp_all
  obtain ex st1 where pb: "process_batch env tags b st = (ex, st1)"
    by (cases "process_batch env tags b st") auto
  from process_batch_preserves [OF wf nb, of tags st] pb
  have 1: "map_of (total_failed st1) arn = map_of (total_failed st) arn" by simp
  show ?case
  proof (cases ex)
    case None
    with pb have "process_batches env tags (b # chunks) st = process_batches env tags chunks st1"
      by simp
    with Cons.IH [OF nc, of st1] 1 show ?thesis by simp
  next
    case (Some e)
    with pb have "process_batches env tags (b # chunks) st = (Some e, st1)" by simp
    with 1 show ?thesis by simp
  qed
qed

lemma py_split_nonempty: "py_split sep s \<noteq> []"
proof -
  have "split_from sep cur s \<noteq> []" for cur
    by (induction sep cur s rule: split_from.induct) auto
  then show ?thesis by (simp add: py_split_def)
qed

lemma py_index_last: "xs \<noteq> [] \<Longrightarrow> py_index xs (- 1) = Inr (last xs)"
proof -
  assume ne: "xs \<noteq> []"
  then obtain n where n: "length xs = Suc n" by (cases xs) auto
  then have "nat (int (length xs) + - 1) = n" by simp
  moreover from ne n have "last xs = xs ! n" by (simp add: last_conv_nth)
  ultimately show ?thesis using n by (simp add: py_index_def)
qed

lemma bucket_name: "py_index (py_split '':::'' arn) (- 1) = Inr (last (py_split '':::'' arn))"
  using py_split_nonempty by (rule py_index_last)

lemma map_of_rev_distinct: "distinct (map fst xs) \<Longrightarrow> map_of (rev xs) = map_of xs"
proof (induction xs)
  case Nil
  then show ?case by simp
next
  case (Cons p xs)
  then have IH: "map_of (rev xs) = map_of xs" by simp
  from Cons.prems have n: "fst p \<notin> fst ` set xs" by simp
  then have none: "map_of xs (fst p) = None" by (rule map_of_eq_None_iff [THEN iffD2])
  have "map_of (rev (p # xs)) = map_of [p] ++ map_of xs"
    by (simp only: rev.simps map_of_append IH)
  also have "\<dots> = map_of (p # xs)"
  proof (rule ext)
    fix k
    show "(map_of [p] ++ map_of xs) k = map_of (p # xs) k"
      using none by (cases "k = fst p") (simp_all add: map_add_def split: option.splits)
  qed
  finally show ?case .
qed

lemma read_existing_tags_returns:
  assumes "s3_get_bucket_tagging env w bucket_name = (Returns (Some ts), w1)"
  shows "read_existing_tags env w bucket_name =
     (Inr (dict_update [] ts),
      [Call_get_bucket_tagging bucket_name, Log INFO (ExistingTags (length (dict_update [] ts)))],
      w1)"
  using assms by (simp add: read_existing_tags_def dict_update_def Let_def)

lemma read_existing_tags_client_error:
  assumes "s3_get_bucket_tagging env w bucket_name = (Raises (ClientError code msg), w1)"
  shows "read_existing_tags env w bucket_name =
     (Inr [],
      [Call_get_bucket_tagging bucket_name,
       if code = ''NoSuchTagSet'' then Log INFO NoExistingTags
       else Log WARNING (ReadFailed (ClientError code msg))],
      w1)"
  using assms by (simp add: read_existing_tags_def)

lemma read_existing_tags_other:
  assumes "s3_get_bucket_tagging env w bucket_name = (Raises (OtherException m), w1)"
  shows "read_existing_tags env w bucket_name =
     (Inl (OtherException m), [Call_get_bucket_tagging bucket_name], w1)"
  using assms by (simp add: read_existing_tags_def)

lemma adapter_s3:
  "tag_resource_with_service_api env arn tags (Some ''s3'') w =
     (case read_existing_tags env w (last (py_split '':::'' arn)) of
        (Inl e, evs, w1) \<Rightarrow> (False, evs @ [Log ERROR (ServiceApiError (Some ''s3'') e)], w1)
      | (Inr existing_tags, evs, w1) \<Rightarrow>
          (case s3_put_bucket_tagging env w1 (last (py_split '':::'' arn))
                  (dict_update existing_tags tags) of
             (Returns u, w2) \<Rightarrow>
               (True,
                evs @ [Call_put_bucket_tagging (last (py_split '':::'' arn))
                         (dict_update existing_tags tags),
                       Log INFO (TagsApplied (length tags) (length (dict_update existing_tags tags)))],
                w2)
           | (Raises e, w2) \<Rightarrow>
               (False,
                evs @ [Call_put_bucket_tagging (last (py_split '':::'' arn))
                         (dict_update existing_tags tags),
                       Log ERROR (ServiceApiError (Some ''s3'') e)],
                w2)))"
proof -
  obtain r evs w1 where re: "read_existing_tags env w (last (py_split '':::'' arn)) = (r, evs, w1)"
    by (cases "read_existing_tags env w (last (py_split '':::'' arn))") auto
  show ?thesis
    by (cases r) (simp_all add: tag_resource_with_service_api_def bucket_name re Let_def)
qed

lemma read_existing_tags_no_writes:
  "read_existing_tags env w bucket_name = (r, evs, w') \<Longrightarrow> bucket_writes evs = []"
  by (auto simp: read_existing_tags_def Let_def split: prod.splits outcome.splits exn.splits)

lemma adapter_s3_writes:
  assumes "read_existing_tags env w (last (py_split '':::'' arn)) = (Inr existing_tags, evs, w1)"
  shows "bucket_writes (fst (snd (tag_resource_with_service_api env arn tags (Some ''s3'') w))) =
     [(last (py_split '':::'' arn), dict_update existing_tags tags)]"
proof -
  from assms have n: "bucket_writes evs = []" by (rule read_existing_tags_no_writes)
  obtain out w2 where p: "s3_put_bucket_tagging env w1 (last (py_split '':::'' arn))
                  (dict_update existing_tags tags) = (out, w2)"
    by (cases "s3_put_bucket_tagging env w1 (last (py_split '':::'' arn))
                  (dict_update existing_tags tags)") auto
  show ?thesis
    by (cases out) (simp_all add: adapter_s3 assms p bucket_writes_append n)
qed

lemma process_service_specific_append:
  "process_service_specific env tags (xs @ ys) st =
     process_service_specific env tags ys (process_service_specific env tags xs st)"
proof (induction xs arbitrary: st)
  case Nil
  then show ?case by simp
next
  case (Cons arn xs)
  obtain ok evs w' where
    r: "tag_resource_with_service_api env arn tags (get_service_from_arn arn) (world st) = (ok, evs, w')"
    by (cases "tag_resource_with_service_api env arn tags (get_service_from_arn arn) (world st)") auto
  show ?case by (cases ok) (simp_all add: r Cons)
qed

lemma process_service_specific_entries:
  "map_of (total_failed (process_service_specific env tags arns st)) a = map_of (total_failed st) a \<or>
   map_of (total_failed (process_service_specific env tags arns st)) a =
     Some (service_specific_failure (get_service_from_arn a))"
proof (induction arns arbitrary: st)
  case Nil
  then show ?case by simp
next
  case (Cons arn arns)
  obtain ok evs w' where
    r: "tag_resource_with_service_api env arn tags (get_service_from_arn arn) (world st) = (ok, evs, w')"
    by (cases "tag_resource_with_service_api env arn tags (get_service_from_arn arn) (world st)") auto
  show ?case
  proof (cases ok)
    case True
    let ?st1 = "st\<lparr>world := w', trace := trace st @ evs,
                   total_success_count := total_success_count st + 1\<rparr>"
    have step: "process_service_specific env tags (arn # arns) st =
        process_service_specific env tags arns ?st1"
      by (simp add: r True)
    from Cons [of ?st1] show ?thesis unfolding step by simp
  next
    case False
    let ?st1 = "st\<lparr>world := w', trace := trace st @ evs,
        total_failed := AList.update arn (service_specific_failure (get_service_from_arn arn))
          (total_failed st)\<rparr>"
    have step: "process_service_specific env tags (arn # arns) st =
        process_service_specific env tags arns ?st1"
      by (simp add: r False)
    have one: "map_of (total_failed ?st1) a = map_of (total_failed st) a \<or>
        map_of (total_failed ?st1) a = Some (service_specific_failure (get_service_from_arn a))"
      by (cases "a = arn") (simp_all add: AList.update_conv')
    from Cons [of ?st1] one show ?thesis
      unfolding step by (elim disjE) simp_all
  qed
qed

lemma service_specific_cases:
  assumes "is_service_specific arn"
  shows "get_service_from_arn arn = Some ''s3'' \<or> get_service_from_arn arn = Some ''appconfig'' \<or>
     get_service_from_arn arn = Some ''route53resolver''"
  using assms
  by (cases "get_service_from_arn arn") (simp_all add: is_service_specific_def unsupported_services_def)

lemma adapter_failure_logged:
  assumes s: "service = Some ''s3'' \<or> service = Some ''appconfig'' \<or> service = Some ''route53resolver''"
    and r: "tag_resource_with_service_api env arn tags service w = (False, evs, w')"
  shows "\<exists>e. last evs = Log ERROR (ServiceApiError service e)"
proof -
  from s consider (s3) "service = Some ''s3''" | (a) "service = Some ''appconfig''"
    | (r53) "service = Some ''route53resolver''"
    by blast
  then show ?thesis
  proof cases
    case s3
    obtain x evs0 w1 where re: "read_existing_tags env w (last (py_split '':::'' arn)) = (x, evs0, w1)"
      by (cases "read_existing_tags env w (last (py_split '':::'' arn))") auto
    show ?thesis
    proof (cases x)
      case (Inl e)
      with r s3 re show ?thesis by (auto simp: adapter_s3)
    next
      case (Inr existing)
      obtain out w2 where p: "s3_put_bucket_tagging env w1 (last (py_split '':::'' arn))
          (dict_update existing tags) = (out, w2)"
        by (cases "s3_put_bucket_tagging env w1 (last (py_split '':::'' arn))
          (dict_update existing tags)") auto
      with r s3 re Inr show ?thesis by (cases out) (auto simp: adapter_s3)
    qed
  next
    case a
    obtain out w1 where p: "appconfig_tag_resource env w arn tags = (out, w1)"
      by (cases "appconfig_tag_resource env w arn tags") auto
    with r a show ?thesis
      by (cases out) (auto simp: tag_resource_with_service_api_def)
  next
    case r53
    obtain out w1 where p: "route53resolver_tag_resource env w arn tags = (out, w1)"
      by (cases "route53resolver_tag_resource env w arn tags") auto
    with r r53 show ?thesis
      by (cases out) (auto simp: tag_resource_with_service_api_def)
  qed
qed


section \<open>The report of a run\<close>

lemma tagging_run_cases:
  "tagging_run env resource_arns tags w =
     (case batch_engine env tags (resource_groups_arns resource_arns)
             (process_service_specific env tags (service_specific_arns resource_arns)
                (initial_state w)) of
        (None, st2) \<Rightarrow> Run (Some (length (total_failed st2) = 0)) None st2
      | (Some e, st2) \<Rightarrow> Run (Some False) (Some e) st2)"
  by (simp add: tagging_run_def Let_def)

lemma tagging_run_None:
  assumes "batch_engine env tags (resource_groups_arns resource_arns)
             (process_service_specific env tags (service_specific_arns resource_arns)
                (initial_state w)) = (None, st2)"
  shows "tagging_run env resource_arns tags w = Run (Some (total_failed st2 = [])) None st2"
  by (simp add: tagging_run_cases assms)

lemma tagging_run_Some:
  assumes "batch_engine env tags (resource_groups_arns resource_arns)
             (process_service_specific env tags (service_specific_arns resource_arns)
                (initial_state w)) = (Some e, st2)"
  shows "tagging_run env resource_arns tags w = Run (Some False) (Some e) st2"
  by (simp add: tagging_run_cases assms)

lemma escaped_tagging_run:
  "escaped (tagging_run env resource_arns tags w) =
     fst (batch_engine env tags (resource_groups_arns resource_arns)
        (process_service_specific env tags (service_specific_arns resource_arns) (initial_state w)))"
  by (simp add: tagging_run_cases split: prod.splits option.splits)

lemma final_tagging_run:
  "final (tagging_run env resource_arns tags w) =
     snd (batch_engine env tags (resource_groups_arns resource_arns)
        (process_service_specific env tags (service_specific_arns resource_arns) (initial_state w)))"
  by (simp add: tagging_run_cases split: prod.splits option.splits)

lemma outcome_tagging_run:
  "outcome (tagging_run env resource_arns tags w) =
     (if escaped (tagging_run env resource_arns tags w) = None
      then Some (total_failed (final (tagging_run env resource_arns tags w)) = [])
      else Some False)"
  by (simp add: tagging_run_cases split: prod.splits option.splits)

lemma apply_returns:
  assumes "tagging_client env w = (Returns client, w0)"
  shows "apply_tags_to_resources env resource_arns tags w = tagging_run env resource_arns tags w0"
  by (simp add: apply_tags_to_resources_def assms)

lemma apply_raises:
  assumes "tagging_client env w = (Raises e, w0)"
  shows "apply_tags_to_resources env resource_arns tags w = Run None (Some e) (initial_state w0)"
  by (simp add: apply_tags_to_resources_def assms)

lemma tagging_client_cases:
  obtains (returns) client w0 where "tagging_client env w = (Returns client, w0)"
  | (raises) e w0 where "tagging_client env w = (Raises e, w0)"
proof (cases "tagging_client env w")
  case (Pair out w0)
  then show ?thesis by (cases out) (auto intro: returns raises)
qed

lemmas run_defs =
  apply_tags_to_resources_def tagging_run_def initial_state_def
  resource_groups_arns_def service_specific_arns_def
  is_service_specific_def get_service_from_arn_def py_split_def py_index_def
  unsupported_services_def batch_engine_def batches_upt process_batch_def
  tag_resource_with_service_api_def read_existing_tags_def dict_update_def
  mark_batch_failed_def service_specific_failure_def py_str_def
  stateless_env_def raising_env_def rejecting_env_def unreadable_bucket_env_def
  no_credentials_def access_denied_def invalid_parameter_def Let_def

lemmas example_defs =
  web_instance_def bad_instance_def my_bucket_def my_application_def env_prod_def

lemma bulk_well_formed_rejecting: "bulk_well_formed (rejecting_env bad)"
  by (auto simp: bulk_well_formed_def rejecting_env_def stateless_env_def comp_def)

lemma run_mixed:
  "apply_tags_to_resources (rejecting_env [bad_instance])
     [web_instance, my_bucket, bad_instance] env_prod () =
   Run (Some False) None
     \<lparr>world = (),
      trace = [Call_get_bucket_tagging ''my-bucket'', Log INFO (ExistingTags 0),
        Call_put_bucket_tagging ''my-bucket'' env_prod,
        Log INFO (TagsApplied 1 1),
        Call_tag_resources [web_instance, bad_instance] env_prod],
      total_success_count = 2,
      total_failed = [(bad_instance, invalid_parameter)]\<rparr>"
  by (simp add: run_defs example_defs)

lemma run_duplicate:
  "apply_tags_to_resources (raising_env access_denied) [web_instance, web_instance] env_prod () =
   Run (Some False) None
     \<lparr>world = (),
      trace = [Call_tag_resources [web_instance, web_instance] env_prod],
      total_success_count = 0,
      total_failed = [(web_instance,
         \<lparr>ErrorCode = ''AccessDenied'',
            ErrorMessage = ''User is not authorized to perform this action''\<rparr>)]\<rparr>"
  by (simp add: run_defs example_defs)

lemma run_no_credentials:
  "apply_tags_to_resources (raising_env no_credentials) [web_instance] env_prod () =
   Run (Some False) (Some no_credentials)
     \<lparr>world = (),
      trace = [Call_tag_resources [web_instance] env_prod],
      total_success_count = 0,
      total_failed = []\<rparr>"
  by (simp add: run_defs example_defs)

lemma run_no_region:
  "apply_tags_to_resources no_region_env [web_instance, my_bucket] env_prod () =
   Run None (Some no_region) (initial_state ())"
  by (simp add: apply_tags_to_resources_def no_region_env_def)

lemma tagging_run_accounting:
  assumes d: "distinct resource_arns"
    and wf: "bulk_well_formed env"
    and fin: "escaped (tagging_run env resource_arns tags w) = None"
  shows "total_success_count (final (tagging_run env resource_arns tags w)) +
           int (length (total_failed (final (tagging_run env resource_arns tags w)))) =
         int (length resource_arns) \<and>
         fst ` set (total_failed (final (tagging_run env resource_arns tags w))) \<subseteq>
           set resource_arns \<and>
         distinct (map fst (total_failed (final (tagging_run env resource_arns tags w))))"
proof -
  let ?ss = "service_specific_arns resource_arns"
  let ?rg = "resource_groups_arns resource_arns"
  let ?st0 = "initial_state w"
  let ?st1 = "process_service_specific env tags ?ss ?st0"
  obtain ex st2 where b: "batch_engine env tags ?rg ?st1 = (ex, st2)"
    by (cases "batch_engine env tags ?rg ?st1") auto
  from fin b have ex: "ex = None" by (simp add: escaped_tagging_run)
  from b have f: "final (tagging_run env resource_arns tags w) = st2"
    by (simp add: final_tagging_run)
  from b ex have b': "batch_engine env tags ?rg ?st1 = (None, st2)" by simp
  from d have dss: "distinct ?ss" and drg: "distinct ?rg"
    by (simp_all add: partition_distinct)
  have i1: "total_failed ?st0 = []" and i2: "total_success_count ?st0 = 0"
    by (simp_all add: initial_state_def)
  have "set ?ss \<inter> fst ` set (total_failed ?st0) = {}" by (simp add: i1)
  moreover have "distinct (map fst (total_failed ?st0))" by (simp add: i1)
  ultimately have A: "total_success_count ?st1 + int (length (total_failed ?st1)) =
         total_success_count ?st0 + int (length (total_failed ?st0)) + int (length ?ss) \<and>
         fst ` set (total_failed ?st1) \<subseteq> fst ` set (total_failed ?st0) \<union> set ?ss \<and>
         distinct (map fst (total_failed ?st1))"
    using dss by (intro process_service_specific_accounting)
  note a1 = A [THEN conjunct1]
  note a2 = A [THEN conjunct2, THEN conjunct1]
  note a3 = A [THEN conjunct2, THEN conjunct2]
  from a2 have keys1: "fst ` set (total_failed ?st1) \<subseteq> set ?ss" by (simp add: i1)
  with partition_sets(2) [of resource_arns] have disj: "set ?rg \<inter> fst ` set (total_failed ?st1) = {}"
    by blast
  note B = batch_engine_accounting [OF wf drg disj a3 b']
  note b1 = B [THEN conjunct1]
  note b2 = B [THEN conjunct2, THEN conjunct1]
  note b3 = B [THEN conjunct2, THEN conjunct2]
  have c1: "total_success_count st2 + int (length (total_failed st2)) = int (length resource_arns)"
    using a1 b1 partition_lengths [of resource_arns] by (simp add: i1 i2)
  have c2: "fst ` set (total_failed st2) \<subseteq> set resource_arns"
    using b2 keys1 partition_sets(1) [of resource_arns] by blast
  from c1 c2 b3 show ?thesis by (simp only: f simp_thms)
qed

text \<open>
  Claim C1, as the code has it. In a run over pairwise distinct identifiers that reaches
  the report (no exception has left the loops), with bulk responses that are well
  formed, the success count plus the number of entries of the failure map is the number
  of input identifiers, and the keys of the failure map are distinct input identifiers:
  every input identifier is counted once, as a success or as a failure.
\<close>

theorem every_identifier_accounted_once:
  assumes d: "distinct resource_arns"
    and wf: "bulk_well_formed env"
    and fin: "escaped (apply_tags_to_resources env resource_arns tags w) = None"
  shows "total_success_count (final (apply_tags_to_resources env resource_arns tags w)) +
           int (length (total_failed (final (apply_tags_to_resources env resource_arns tags w)))) =
         int (length resource_arns) \<and>
         fst ` set (total_failed (final (apply_tags_to_resources env resource_arns tags w))) \<subseteq>
           set resource_arns \<and>
         distinct (map fst (total_failed (final (apply_tags_to_resources env resource_arns tags w))))"
proof (cases rule: tagging_client_cases [of env w])
  case (returns client w0)
  then have eq: "apply_tags_to_resources env resource_arns tags w =
      tagging_run env resource_arns tags w0"
    by (rule apply_returns)
  from fin have "escaped (tagging_run env resource_arns tags w0) = None" by (simp only: eq)
  with d wf show ?thesis unfolding eq by (rule tagging_run_accounting)
next
  case (raises e w0)
  then have "apply_tags_to_resources env resource_arns tags w =
      Run None (Some e) (initial_state w0)"
    by (rule apply_raises)
  with fin show ?thesis by simp
qed

text \<open>
  A run with a bucket, an instance that is tagged and an instance that the bulk call
  rejects: two successes and one failure for three identifiers.
\<close>

theorem every_identifier_accounted_once_witness:
  "distinct [web_instance, my_bucket, bad_instance] \<and>
   escaped (apply_tags_to_resources (rejecting_env [bad_instance])
      [web_instance, my_bucket, bad_instance] env_prod ()) = None \<and>
   total_success_count (final (apply_tags_to_resources (rejecting_env [bad_instance])
      [web_instance, my_bucket, bad_instance] env_prod ())) = 2 \<and>
   length (total_failed (final (apply_tags_to_resources (rejecting_env [bad_instance])
      [web_instance, my_bucket, bad_instance] env_prod ()))) = 1"
proof -
  have d: "distinct [web_instance, my_bucket, bad_instance]"
    by (simp add: example_defs)
  have e: "escaped (apply_tags_to_resources (rejecting_env [bad_instance])
      [web_instance, my_bucket, bad_instance] env_prod ()) = None"
    by (simp only: run_mixed run.sel)
  have s: "total_success_count (final (apply_tags_to_resources (rejecting_env [bad_instance])
      [web_instance, my_bucket, bad_instance] env_prod ())) = 2"
    by (simp add: run_mixed)
  from every_identifier_accounted_once [OF d bulk_well_formed_rejecting e] s
  have "length (total_failed (final (apply_tags_to_resources (rejecting_env [bad_instance])
      [web_instance, my_bucket, bad_instance] env_prod ()))) = 1"
    by simp
  with d e s show ?thesis by (intro conjI)
qed

text \<open>
  The claim as stated fails. An identifier given twice whose batch is refused has one
  entry in the failure map and no success for two inputs; and a run that an exception
  other than \<open>ClientError\<close> ends has neither a success nor a failure for its input.
\<close>

theorem duplicate_or_aborted_run_not_accounted:
  "total_success_count (final (apply_tags_to_resources (raising_env access_denied)
      [web_instance, web_instance] env_prod ())) +
     int (length (total_failed (final (apply_tags_to_resources (raising_env access_denied)
      [web_instance, web_instance] env_prod ())))) = 1 \<and>
   int (length [web_instance, web_instance]) = 2 \<and>
   total_success_count (final (apply_tags_to_resources (raising_env no_credentials)
      [web_instance] env_prod ())) +
     int (length (total_failed (final (apply_tags_to_resources (raising_env no_credentials)
      [web_instance] env_prod ())))) = 0 \<and>
   int (length [web_instance]) = 1"
  by (simp add: run_duplicate run_no_credentials)

text \<open>
  Claim C7, as the code has it. In a run that reaches the report the boolean returned is
  \<open>True\<close> exactly when the failure map is empty. In every run a failure map that is not
  empty gives \<open>False\<close>, whatever the success count. When the client of line 109 has
  been built, an exception that keeps the run from the report is caught by a handler of
  the outer \<open>try\<close> and the function returns \<open>False\<close>. When building this client
  raises, the exception leaves the function: no boolean is returned, and nothing was
  counted or recorded.
\<close>

theorem outcome_success_iff_no_failure:
  "(escaped (apply_tags_to_resources env resource_arns tags w) = None \<longrightarrow>
      outcome (apply_tags_to_resources env resource_arns tags w) =
        Some (total_failed (final (apply_tags_to_resources env resource_arns tags w)) = [])) \<and>
   (total_failed (final (apply_tags_to_resources env resource_arns tags w)) \<noteq> [] \<longrightarrow>
      outcome (apply_tags_to_resources env resource_arns tags w) = Some False) \<and>
   (tagging_client env w = (Returns client, w0) \<and>
    escaped (apply_tags_to_resources env resource_arns tags w) \<noteq> None \<longrightarrow>
      outcome (apply_tags_to_resources env resource_arns tags w) = Some False) \<and>
   (tagging_client env w = (Raises e, w1) \<longrightarrow>
      outcome (apply_tags_to_resources env resource_arns tags w) = None \<and>
      escaped (apply_tags_to_resources env resource_arns tags w) = Some e \<and>
      final (apply_tags_to_resources env resource_arns tags w) = initial_state w1)"
proof (cases rule: tagging_client_cases [of env w])
  case (returns c v)
  then have eq: "apply_tags_to_resources env resource_arns tags w =
      tagging_run env resource_arns tags v"
    by (rule apply_returns)
  note o = outcome_tagging_run [of env resource_arns tags v]
  have 1: "escaped (tagging_run env resource_arns tags v) = None \<longrightarrow>
      outcome (tagging_run env resource_arns tags v) =
        Some (total_failed (final (tagging_run env resource_arns tags v)) = [])"
    by (simp add: o)
  have 2: "total_failed (final (tagging_run env resource_arns tags v)) \<noteq> [] \<longrightarrow>
      outcome (tagging_run env resource_arns tags v) = Some False"
    by (simp add: o)
  have 3: "tagging_client env w = (Returns client, w0) \<and>
    escaped (tagging_run env resource_arns tags v) \<noteq> None \<longrightarrow>
      outcome (tagging_run env resource_arns tags v) = Some False"
    by (simp add: o)
  have 4: "tagging_client env w = (Raises e, w1) \<longrightarrow>
      outcome (tagging_run env resource_arns tags v) = None \<and>
      escaped (tagging_run env resource_arns tags v) = Some e \<and>
      final (tagging_run env resource_arns tags v) = initial_state w1"
    by (simp add: returns)
  from 1 2 3 4 show ?thesis unfolding eq by (intro conjI)
next
  case (raises x v)
  then have eq: "apply_tags_to_resources env resource_arns tags w =
      Run None (Some x) (initial_state v)"
    by (rule apply_raises)
  show ?thesis unfolding eq by (simp add: raises initial_state_def)
qed

text \<open>
  A run with two successes and one failure returns \<open>False\<close>; a run with no failure
  returns \<open>True\<close>; a run without credentials returns \<open>False\<close>; a run without a
  region returns nothing.
\<close>

theorem outcome_success_iff_no_failure_witness:
  "escaped (apply_tags_to_resources (rejecting_env [bad_instance])
      [web_instance, my_bucket, bad_instance] env_prod ()) = None \<and>
   total_success_count (final (apply_tags_to_resources (rejecting_env [bad_instance])
      [web_instance, my_bucket, bad_instance] env_prod ())) = 2 \<and>
   total_failed (final (apply_tags_to_resources (rejecting_env [bad_instance])
      [web_instance, my_bucket, bad_instance] env_prod ())) \<noteq> [] \<and>
   outcome (apply_tags_to_resources (rejecting_env [bad_instance])
      [web_instance, my_bucket, bad_instance] env_prod ()) = Some False \<and>
   escaped (apply_tags_to_resources (rejecting_env []) [web_instance, my_bucket] env_prod ()) = None \<and>
   total_failed (final (apply_tags_to_resources (rejecting_env [])
      [web_instance, my_bucket] env_prod ())) = [] \<and>
   outcome (apply_tags_to_resources (rejecting_env []) [web_instance, my_bucket] env_prod ()) =
     Some True \<and>
   tagging_client (raising_env no_credentials) () = (Returns (), ()) \<and>
   escaped (apply_tags_to_resources (raising_env no_credentials) [web_instance] env_prod ()) \<noteq> None \<and>
   outcome (apply_tags_to_resources (raising_env no_credentials) [web_instance] env_prod ()) =
     Some False \<and>
   tagging_client no_region_env () = (Raises no_region, ()) \<and>
   outcome (apply_tags_to_resources no_region_env [web_instance, my_bucket] env_prod ()) = None"
proof -
  note t = outcome_success_iff_no_failure
  have e: "escaped (apply_tags_to_resources (rejecting_env [bad_instance])
      [web_instance, my_bucket, bad_instance] env_prod ()) = None"
    by (simp only: run_mixed run.sel)
  have s: "total_success_count (final (apply_tags_to_resources (rejecting_env [bad_instance])
      [web_instance, my_bucket, bad_instance] env_prod ())) = 2"
    by (simp add: run_mixed)
  have f: "total_failed (final (apply_tags_to_resources (rejecting_env [bad_instance])
      [web_instance, my_bucket, bad_instance] env_prod ())) \<noteq> []"
    by (simp add: run_mixed)
  have o: "outcome (apply_tags_to_resources (rejecting_env [bad_instance])
      [web_instance, my_bucket, bad_instance] env_prod ()) = Some False"
    using t [of "rejecting_env [bad_instance]" "[web_instance, my_bucket, bad_instance]" env_prod "()",
        THEN conjunct2, THEN conjunct1] f
    by (rule mp)
  have e2: "escaped (apply_tags_to_resources (rejecting_env []) [web_instance, my_bucket] env_prod ()) = None"
    by (simp add: run_defs example_defs)
  have f2: "total_failed (final (apply_tags_to_resources (rejecting_env [])
      [web_instance, my_bucket] env_prod ())) = []"
    by (simp add: run_defs example_defs)
  have o2: "outcome (apply_tags_to_resources (rejecting_env []) [web_instance, my_bucket] env_prod ()) =
     Some True"
    using t [of "rejecting_env []" "[web_instance, my_bucket]" env_prod "()", THEN conjunct1] e2 f2
    by simp
  have c3: "tagging_client (raising_env no_credentials) () = (Returns (), ())"
    by (simp add: raising_env_def stateless_env_def)
  have e3: "escaped (apply_tags_to_resources (raising_env no_credentials) [web_instance] env_prod ()) \<noteq> None"
    by (simp add: run_no_credentials)
  have o3: "outcome (apply_tags_to_resources (raising_env no_credentials) [web_instance] env_prod ()) =
     Some False"
    using t [where env = "raising_env no_credentials" and w = "()" and client = "()" and
        ?w0.0 = "()" and resource_arns = "[web_instance]" and tags = env_prod,
        THEN conjunct2, THEN conjunct2, THEN conjunct1] c3 e3
    by simp
  have c4: "tagging_client no_region_env () = (Raises no_region, ())"
    by (simp add: no_region_env_def)
  have o4: "outcome (apply_tags_to_resources no_region_env [web_instance, my_bucket] env_prod ()) = None"
    using t [where env = no_region_env and w = "()" and e = no_region and ?w1.0 = "()" and
        resource_arns = "[web_instance, my_bucket]" and tags = env_prod,
        THEN conjunct2, THEN conjunct2, THEN conjunct2] c4
    by simp
  from e s f o e2 f2 o2 c3 e3 o3 c4 o4 show ?thesis by (intro conjI)
qed

text \<open>
  The claim as stated fails: without credentials the bulk call raises an exception that
  is no \<open>ClientError\<close>, the run returns \<open>False\<close> and the failure map is empty.
\<close>

theorem aborted_run_fails_with_empty_failure_map:
  "outcome (apply_tags_to_resources (raising_env no_credentials) [web_instance] env_prod ()) =
     Some False \<and>
   total_failed (final (apply_tags_to_resources (raising_env no_credentials)
      [web_instance] env_prod ())) = []"
  by (simp add: run_no_credentials)


section \<open>The bulk calls of a run\<close>

lemma escaped_None:
  assumes c: "tagging_client env w = (Returns client, w0)"
    and "\<And>w b m. fst (tag_resources env w b tags) \<noteq> Raises (OtherException m)"
  shows "escaped (apply_tags_to_resources env resource_arns tags w) = None"
proof -
  have "fst (batch_engine env tags (resource_groups_arns resource_arns)
      (process_service_specific env tags (service_specific_arns resource_arns)
         (initial_state w0))) = None"
    using process_batches_no_escape [of env tags, OF assms(2)] by (simp add: batch_engine_def)
  then show ?thesis
    by (simp only: apply_returns [OF c] escaped_tagging_run)
qed

lemma run_bulk_calls:
  "\<exists>n\<le>length (batches (resource_groups_arns resource_arns)).
     bulk_calls (trace (final (apply_tags_to_resources env resource_arns tags w))) =
       map (\<lambda>b. (b, tags)) (take n (batches (resource_groups_arns resource_arns))) \<and>
     (escaped (apply_tags_to_resources env resource_arns tags w) = None \<longrightarrow>
        n = length (batches (resource_groups_arns resource_arns)))"
proof (cases rule: tagging_client_cases [of env w])
  case (returns client w0)
  let ?st1 = "process_service_specific env tags (service_specific_arns resource_arns)
                (initial_state w0)"
  have "bulk_calls (trace ?st1) = []"
    by (simp add: process_service_specific_bulk_calls initial_state_def)
  with batch_engine_calls [of "resource_groups_arns resource_arns" env tags ?st1]
  show ?thesis
    by (simp only: apply_returns [OF returns] escaped_tagging_run final_tagging_run append_Nil)
next
  case (raises e w0)
  show ?thesis
  proof (intro exI conjI)
    show "0 \<le> length (batches (resource_groups_arns resource_arns))" by simp
    show "bulk_calls (trace (final (apply_tags_to_resources env resource_arns tags w))) =
       map (\<lambda>b. (b, tags)) (take 0 (batches (resource_groups_arns resource_arns)))"
      by (simp add: apply_raises [OF raises] initial_state_def)
    show "escaped (apply_tags_to_resources env resource_arns tags w) = None \<longrightarrow>
        0 = length (batches (resource_groups_arns resource_arns))"
      by (simp add: apply_raises [OF raises])
  qed
qed

text \<open>
  Claim C2, as the code has it. The identifiers for the bulk path are cut into consecutive
  batches: their concatenation is the list, no batch is empty or longer than 20, every
  batch but the last has 20 elements, and 45 identifiers give batches of 20, 20 and 5.
  The bulk calls of a run are the batches in order, each with the tags, up to some
  position; in a run that no exception other than \<open>ClientError\<close> has ended, they are
  all the batches, one call for each.
\<close>

theorem batches_and_bulk_calls:
  "concat (batches (resource_groups_arns resource_arns)) = resource_groups_arns resource_arns \<and>
   (\<forall>b \<in> set (batches (resource_groups_arns resource_arns)). b \<noteq> [] \<and> length b \<le> 20) \<and>
   (\<forall>b \<in> set (butlast (batches (resource_groups_arns resource_arns))). length b = 20) \<and>
   (\<exists>n\<le>length (batches (resource_groups_arns resource_arns)).
      bulk_calls (trace (final (apply_tags_to_resources env resource_arns tags w))) =
        map (\<lambda>b. (b, tags)) (take n (batches (resource_groups_arns resource_arns))) \<and>
      (escaped (apply_tags_to_resources env resource_arns tags w) = None \<longrightarrow>
         n = length (batches (resource_groups_arns resource_arns)))) \<and>
   (length (resource_groups_arns resource_arns) = 45 \<longrightarrow>
      map length (batches (resource_groups_arns resource_arns)) = [20, 20, 5])"
proof -
  let ?rg = "resource_groups_arns resource_arns"
  have 1: "concat (batches ?rg) = ?rg" by (rule concat_batches)
  have 2: "\<forall>b \<in> set (batches ?rg). b \<noteq> [] \<and> length b \<le> 20"
    using batches_sizes [of _ ?rg] by (intro ballI)
  have 3: "\<forall>b \<in> set (butlast (batches ?rg)). length b = 20"
    using batches_full [of _ ?rg] by (intro ballI)
  have 5: "length ?rg = 45 \<longrightarrow> map length (batches ?rg) = [20, 20, 5]"
  proof
    assume l: "length ?rg = 45"
    then show "map length (batches ?rg) = [20, 20, 5]"
      by (simp add: batches_45 [OF l])
  qed
  from 1 2 3 run_bulk_calls [of resource_arns env tags w] 5 show ?thesis
    by (intro conjI)
qed

text \<open>
  A run over 45 instances in an environment whose calls all return: three bulk calls, of
  20, 20 and 5 identifiers.
\<close>

theorem batches_and_bulk_calls_witness:
  "length (resource_groups_arns (map instance_arn [0..<45])) = 45 \<and>
   escaped (apply_tags_to_resources (rejecting_env []) (map instance_arn [0..<45]) env_prod ()) = None \<and>
   map (\<lambda>c. length (fst c))
     (bulk_calls (trace (final
        (apply_tags_to_resources (rejecting_env []) (map instance_arn [0..<45]) env_prod ())))) =
   [20, 20, 5]"
proof -
  let ?arns = "map instance_arn [0..<45]"
  let ?r = "apply_tags_to_resources (rejecting_env []) ?arns env_prod ()"
  have l: "length (resource_groups_arns ?arns) = 45"
    by (simp only: instances_resource_groups length_map length_upt)
  have e: "escaped ?r = None"
    by (rule escaped_None [where client = "()" and ?w0.0 = "()"])
      (simp_all add: rejecting_env_def stateless_env_def)
  note t = batches_and_bulk_calls [of ?arns "rejecting_env []" env_prod "()"]
  note t4 = t [THEN conjunct2, THEN conjunct2, THEN conjunct2, THEN conjunct1]
  note t5 = t [THEN conjunct2, THEN conjunct2, THEN conjunct2, THEN conjunct2]
  from t4 obtain n where
    c: "bulk_calls (trace (final ?r)) =
          map (\<lambda>b. (b, env_prod)) (take n (batches (resource_groups_arns ?arns)))"
    and n: "escaped ?r = None \<longrightarrow> n = length (batches (resource_groups_arns ?arns))"
    by (elim exE conjE)
  from n e have "n = length (batches (resource_groups_arns ?arns))" by (rule mp)
  with c have "bulk_calls (trace (final ?r)) =
      map (\<lambda>b. (b, env_prod)) (batches (resource_groups_arns ?arns))"
    by simp
  then have "map (\<lambda>c. length (fst c)) (bulk_calls (trace (final ?r))) =
      map length (batches (resource_groups_arns ?arns))"
    by (simp add: comp_def)
  also from t5 l have "\<dots> = [20, 20, 5]" by (rule mp)
  finally show ?thesis using l e by (intro conjI)
qed

text \<open>
  The claim as stated fails: the 45 instances make three batches, but without credentials
  the first bulk call raises an exception that is no \<open>ClientError\<close>, which ends the
  loop after one call.
\<close>

theorem without_credentials_one_call_for_three_chunks:
  "map length (batches (resource_groups_arns (map instance_arn [0..<45]))) = [20, 20, 5] \<and>
   map (\<lambda>c. length (fst c))
     (bulk_calls (trace (final
        (apply_tags_to_resources (raising_env no_credentials) (map instance_arn [0..<45])
           env_prod ())))) = [20]"
proof -
  let ?arns = "map instance_arn [0..<45]"
  have l: "length ?arns = 45" by simp
  have ne: "?arns \<noteq> []" using l by (metis length_0_conv zero_neq_numeral)
  have b: "batches ?arns = take 20 ?arns # batches (drop 20 ?arns)"
    using ne by (rule batches_step)
  let ?st0 = "initial_state () :: unit run_state"
  have pb: "process_batch (raising_env no_credentials) env_prod (take 20 ?arns) ?st0 =
     (Some (OtherException ''Unable to locate credentials''),
      ?st0\<lparr>world := (), trace := trace ?st0 @ [Call_tag_resources (take 20 ?arns) env_prod]\<rparr>)"
    by (rule process_batch_other_exception)
      (simp add: raising_env_def stateless_env_def no_credentials_def)
  have eng: "batch_engine (raising_env no_credentials) env_prod ?arns ?st0 =
     (Some (OtherException ''Unable to locate credentials''),
      ?st0\<lparr>world := (), trace := trace ?st0 @ [Call_tag_resources (take 20 ?arns) env_prod]\<rparr>)"
    using ne by (simp only: batch_engine_def if_True b process_batches.simps pb) simp
  have c: "tagging_client (raising_env no_credentials) () = (Returns (), ())"
    by (simp add: raising_env_def stateless_env_def)
  have fin: "final (apply_tags_to_resources (raising_env no_credentials) ?arns env_prod ()) =
      ?st0\<lparr>world := (), trace := trace ?st0 @ [Call_tag_resources (take 20 ?arns) env_prod]\<rparr>"
    by (simp only: apply_returns [OF c] final_tagging_run instances_resource_groups
        process_service_specific.simps eng snd_conv)
  have calls: "map (\<lambda>c. length (fst c))
     (bulk_calls (trace (final
        (apply_tags_to_resources (raising_env no_credentials) ?arns env_prod ())))) = [20]"
    by (simp only: fin) (simp add: initial_state_def)
  have sizes: "map length (batches (resource_groups_arns ?arns)) = [20, 20, 5]"
    by (simp only: instances_resource_groups batches_45 [OF l]) simp
  from sizes calls show ?thesis by (intro conjI)
qed


section \<open>A batch whose call raises\<close>

lemma instance_arn_eq [simp]: "(instance_arn m = instance_arn n) = (m = n)"
proof
  assume "instance_arn m = instance_arn n"
  then have "length (instance_arn m) = length (instance_arn n)" by (rule arg_cong)
  then show "m = n" by (simp add: instance_arn_def)
qed simp

lemma instance_arn_in_image [simp]: "(instance_arn n \<in> instance_arn ` A) = (n \<in> A)"
  by auto

lemma instance_arn_in_set [simp]:
  "(instance_arn n \<in> set (map instance_arn ns)) = (n \<in> set ns)"
  by (induction ns) auto

lemma distinct_instances: "distinct (map instance_arn [i..<j])"
  by (simp add: distinct_map inj_on_def)

lemma batches_45_instances:
  "batches (resource_groups_arns (map instance_arn [0..<45])) =
     [map instance_arn [0..<20], map instance_arn [20..<40], map instance_arn [40..<45]]"
proof -
  have l: "length (map instance_arn [0..<45]) = 45" by simp
  have 1: "take 20 (map instance_arn [0..<45]) = map instance_arn [0..<20]"
    by (simp only: take_map take_upt) simp
  have 2: "take 20 (drop 20 (map instance_arn [0..<45])) = map instance_arn [20..<40]"
    by (simp only: drop_map take_map drop_upt take_upt) simp
  have 3: "drop 40 (map instance_arn [0..<45]) = map instance_arn [40..<45]"
    by (simp only: drop_map drop_upt) simp
  show ?thesis
    by (simp only: instances_resource_groups batches_45 [OF l] 1 2 3)
qed

lemma batches_nonempty_list: "batches rg = pre @ b # post \<Longrightarrow> rg \<noteq> []"
  by (auto simp: batches_Nil)

lemma run_reaches_batch:
  assumes client: "tagging_client env w = (Returns client, w0)"
    and chunks: "batches (resource_groups_arns resource_arns) = pre @ batch_arns # post"
    and pre: "process_batches env tags pre
        (process_service_specific env tags (service_specific_arns resource_arns)
           (initial_state w0)) = (None, st1)"
  shows "escaped (apply_tags_to_resources env resource_arns tags w) =
           fst (process_batches env tags (batch_arns # post) st1) \<and>
         final (apply_tags_to_resources env resource_arns tags w) =
           snd (process_batches env tags (batch_arns # post) st1) \<and>
         outcome (apply_tags_to_resources env resource_arns tags w) =
           (if fst (process_batches env tags (batch_arns # post) st1) = None
            then Some (total_failed (snd (process_batches env tags (batch_arns # post) st1)) = [])
            else Some False)"
proof -
  let ?st = "process_service_specific env tags (service_specific_arns resource_arns)
           (initial_state w0)"
  from chunks have ne: "resource_groups_arns resource_arns \<noteq> []"
    by (rule batches_nonempty_list)
  have "batch_engine env tags (resource_groups_arns resource_arns) ?st =
      process_batches env tags (pre @ batch_arns # post) ?st"
    using ne by (simp add: batch_engine_def chunks)
  also have "\<dots> = process_batches env tags (batch_arns # post) st1"
    by (simp only: process_batches_append pre prod.case option.case)
  finally have be: "batch_engine env tags (resource_groups_arns resource_arns) ?st =
      process_batches env tags (batch_arns # post) st1" .
  show ?thesis
    by (simp only: apply_returns [OF client] outcome_tagging_run escaped_tagging_run
        final_tagging_run be)
qed

lemma run_batch_client_error:
  assumes client: "tagging_client env w = (Returns client, w0)"
    and chunks: "batches (resource_groups_arns resource_arns) = pre @ batch_arns # post"
    and pre: "process_batches env tags pre
        (process_service_specific env tags (service_specific_arns resource_arns)
           (initial_state w0)) = (None, st1)"
    and err: "tag_resources env (world st1) batch_arns tags = (Raises (ClientError code msg), w')"
  shows "\<exists>st2. process_batch env tags batch_arns st1 = (None, st2) \<and>
     (\<forall>arn \<in> set batch_arns.
        map_of (total_failed st2) arn = Some \<lparr>ErrorCode = code, ErrorMessage = msg\<rparr>) \<and>
     total_success_count st2 = total_success_count st1 \<and>
     (\<forall>arn. arn \<notin> set batch_arns \<longrightarrow>
        map_of (total_failed st2) arn = map_of (total_failed st1) arn) \<and>
     escaped (apply_tags_to_resources env resource_arns tags w) =
       fst (process_batches env tags post st2) \<and>
     final (apply_tags_to_resources env resource_arns tags w) =
       snd (process_batches env tags post st2) \<and>
     (bulk_well_formed env \<and> distinct resource_arns \<longrightarrow>
        (\<forall>arn \<in> set batch_arns.
           map_of (total_failed (final (apply_tags_to_resources env resource_arns tags w))) arn =
             Some \<lparr>ErrorCode = code, ErrorMessage = msg\<rparr>))"
proof -
  let ?st2 = "st1\<lparr>world := w', trace := trace st1 @ [Call_tag_resources batch_arns tags],
               total_failed := mark_batch_failed batch_arns code msg (total_failed st1)\<rparr>"
  have 1: "process_batch env tags batch_arns st1 = (None, ?st2)"
    using err by (rule process_batch_client_error)
  have step: "process_batches env tags (batch_arns # post) st1 = process_batches env tags post ?st2"
    by (simp add: 1)
  note r = run_reaches_batch [OF client chunks pre]
  have 3: "\<forall>arn \<in> set batch_arns.
        map_of (total_failed ?st2) arn = Some \<lparr>ErrorCode = code, ErrorMessage = msg\<rparr>"
    by (simp add: map_of_mark_batch_failed)
  have 4: "total_success_count ?st2 = total_success_count st1" by simp
  have 5: "\<forall>arn. arn \<notin> set batch_arns \<longrightarrow>
        map_of (total_failed ?st2) arn = map_of (total_failed st1) arn"
    by (simp add: map_of_mark_batch_failed)
  have 6: "escaped (apply_tags_to_resources env resource_arns tags w) =
       fst (process_batches env tags post ?st2)"
    using r [THEN conjunct1] by (simp only: step)
  have 7: "final (apply_tags_to_resources env resource_arns tags w) =
       snd (process_batches env tags post ?st2)"
    using r [THEN conjunct2, THEN conjunct1] by (simp only: step)
  have 8: "bulk_well_formed env \<and> distinct resource_arns \<longrightarrow>
        (\<forall>arn \<in> set batch_arns.
           map_of (total_failed (final (apply_tags_to_resources env resource_arns tags w))) arn =
             Some \<lparr>ErrorCode = code, ErrorMessage = msg\<rparr>)"
  proof (intro impI ballI)
    fix arn
    assume h: "bulk_well_formed env \<and> distinct resource_arns" and a: "arn \<in> set batch_arns"
    from h have wf: "bulk_well_formed env" by (rule conjunct1)
    from h have "distinct (resource_groups_arns resource_arns)"
      by (simp add: partition_distinct)
    then have "distinct (concat (batches (resource_groups_arns resource_arns)))"
      by (simp only: concat_batches)
    then have "distinct (concat (pre @ batch_arns # post))" by (simp only: chunks)
    then have "set batch_arns \<inter> set (concat post) = {}" by auto
    with a have "arn \<notin> set (concat post)" by blast
    with wf have "map_of (total_failed (snd (process_batches env tags post ?st2))) arn =
        map_of (total_failed ?st2) arn"
      by (rule process_batches_preserves)
    with a 3 show "map_of (total_failed (final (apply_tags_to_resources env resource_arns tags w))) arn =
             Some \<lparr>ErrorCode = code, ErrorMessage = msg\<rparr>"
      by (simp add: 7)
  qed
  show ?thesis
  proof (intro exI conjI)
    show "process_batch env tags batch_arns st1 = (None, ?st2)" by (rule 1)
    show "\<forall>arn \<in> set batch_arns.
        map_of (total_failed ?st2) arn = Some \<lparr>ErrorCode = code, ErrorMessage = msg\<rparr>"
      by (rule 3)
    show "total_success_count ?st2 = total_success_count st1" by (rule 4)
    show "\<forall>arn. arn \<notin> set batch_arns \<longrightarrow>
        map_of (total_failed ?st2) arn = map_of (total_failed st1) arn"
      by (rule 5)
    show "escaped (apply_tags_to_resources env resource_arns tags w) =
       fst (process_batches env tags post ?st2)" by (rule 6)
    show "final (apply_tags_to_resources env resource_arns tags w) =
       snd (process_batches env tags post ?st2)" by (rule 7)
    show "bulk_well_formed env \<and> distinct resource_arns \<longrightarrow>
        (\<forall>arn \<in> set batch_arns.
           map_of (total_failed (final (apply_tags_to_resources env resource_arns tags w))) arn =
             Some \<lparr>ErrorCode = code, ErrorMessage = msg\<rparr>)"
      by (rule 8)
  qed
qed

lemma run_batch_other_exception:
  assumes client: "tagging_client env w = (Returns client, w0)"
    and chunks: "batches (resource_groups_arns resource_arns) = pre @ batch_arns # post"
    and pre: "process_batches env tags pre
        (process_service_specific env tags (service_specific_arns resource_arns)
           (initial_state w0)) = (None, st1)"
    and err: "tag_resources env (world st1) batch_arns tags = (Raises (OtherException m), w')"
  shows "apply_tags_to_resources env resource_arns tags w =
     Run (Some False) (Some (OtherException m))
       (st1\<lparr>world := w', trace := trace st1 @ [Call_tag_resources batch_arns tags]\<rparr>)"
proof -
  have 1: "process_batch env tags batch_arns st1 =
     (Some (OtherException m),
      st1\<lparr>world := w', trace := trace st1 @ [Call_tag_resources batch_arns tags]\<rparr>)"
    using err by (rule process_batch_other_exception)
  have step: "process_batches env tags (batch_arns # post) st1 =
     (Some (OtherException m),
      st1\<lparr>world := w', trace := trace st1 @ [Call_tag_resources batch_arns tags]\<rparr>)"
    by (simp add: 1)
  note r = run_reaches_batch [OF client chunks pre]
  have e: "escaped (apply_tags_to_resources env resource_arns tags w) = Some (OtherException m)"
    using r [THEN conjunct1] by (simp only: step fst_conv)
  have f: "final (apply_tags_to_resources env resource_arns tags w) =
      st1\<lparr>world := w', trace := trace st1 @ [Call_tag_resources batch_arns tags]\<rparr>"
    using r [THEN conjunct2, THEN conjunct1] by (simp only: step snd_conv)
  have o: "outcome (apply_tags_to_resources env resource_arns tags w) = Some False"
    using r [THEN conjunct2, THEN conjunct2] by (simp only: step fst_conv) simp
  from e f o show ?thesis
    by (cases "apply_tags_to_resources env resource_arns tags w") simp
qed

text \<open>
  Claim C3, as the code has it. Let a run have built its client and reached a batch of
  the bulk path, \<open>pre\<close> being the batches before it and \<open>st1\<close> the local variables on
  arrival. If the bulk call for the batch raises a \<open>ClientError\<close>, the pass stores every
  identifier of the batch in the failure map with the code and the message of the
  exception, leaves the success count as it was and the entry of every identifier outside
  the batch as it was, and the run goes on with the batches that follow; in a run over
  distinct identifiers with well-formed bulk responses these entries are in the failure
  map when the run ends. If the bulk call raises any other exception, the run ends there
  with \<open>False\<close>: nothing is stored for the batch and the batches that follow get no call.
\<close>

theorem client_error_marks_whole_batch:
  assumes client: "tagging_client env w = (Returns client, w0)"
    and chunks: "batches (resource_groups_arns resource_arns) = pre @ batch_arns # post"
    and pre: "process_batches env tags pre
        (process_service_specific env tags (service_specific_arns resource_arns)
           (initial_state w0)) = (None, st1)"
  shows "(tag_resources env (world st1) batch_arns tags = (Raises (ClientError code msg), w') \<longrightarrow>
     (\<exists>st2. process_batch env tags batch_arns st1 = (None, st2) \<and>
       (\<forall>arn \<in> set batch_arns.
          map_of (total_failed st2) arn = Some \<lparr>ErrorCode = code, ErrorMessage = msg\<rparr>) \<and>
       total_success_count st2 = total_success_count st1 \<and>
       (\<forall>arn. arn \<notin> set batch_arns \<longrightarrow>
          map_of (total_failed st2) arn = map_of (total_failed st1) arn) \<and>
       escaped (apply_tags_to_resources env resource_arns tags w) =
         fst (process_batches env tags post st2) \<and>
       final (apply_tags_to_resources env resource_arns tags w) =
         snd (process_batches env tags post st2) \<and>
       (bulk_well_formed env \<and> distinct resource_arns \<longrightarrow>
          (\<forall>arn \<in> set batch_arns.
             map_of (total_failed (final (apply_tags_to_resources env resource_arns tags w))) arn =
               Some \<lparr>ErrorCode = code, ErrorMessage = msg\<rparr>)))) \<and>
   (tag_resources env (world st1) batch_arns tags = (Raises (OtherException m), w') \<longrightarrow>
      apply_tags_to_resources env resource_arns tags w =
        Run (Some False) (Some (OtherException m))
          (st1\<lparr>world := w', trace := trace st1 @ [Call_tag_resources batch_arns tags]\<rparr>))"
proof (intro conjI impI)
  assume "tag_resources env (world st1) batch_arns tags = (Raises (ClientError code msg), w')"
  with client chunks pre show "\<exists>st2. process_batch env tags batch_arns st1 = (None, st2) \<and>
       (\<forall>arn \<in> set batch_arns.
          map_of (total_failed st2) arn = Some \<lparr>ErrorCode = code, ErrorMessage = msg\<rparr>) \<and>
       total_success_count st2 = total_success_count st1 \<and>
       (\<forall>arn. arn \<notin> set batch_arns \<longrightarrow>
          map_of (total_failed st2) arn = map_of (total_failed st1) arn) \<and>
       escaped (apply_tags_to_resources env resource_arns tags w) =
         fst (process_batches env tags post st2) \<and>
       final (apply_tags_to_resources env resource_arns tags w) =
         snd (process_batches env tags post st2) \<and>
       (bulk_well_formed env \<and> distinct resource_arns \<longrightarrow>
          (\<forall>arn \<in> set batch_arns.
             map_of (total_failed (final (apply_tags_to_resources env resource_arns tags w))) arn =
               Some \<lparr>ErrorCode = code, ErrorMessage = msg\<rparr>))"
    by (rule run_batch_client_error)
next
  assume "tag_resources env (world st1) batch_arns tags = (Raises (OtherException m), w')"
  with client chunks pre show "apply_tags_to_resources env resource_arns tags w =
        Run (Some False) (Some (OtherException m))
          (st1\<lparr>world := w', trace := trace st1 @ [Call_tag_resources batch_arns tags]\<rparr>)"
    by (rule run_batch_other_exception)
qed

lemma bulk_well_formed_throttling: "bulk_well_formed (throttling_env hot)"
  by (simp add: bulk_well_formed_def throttling_env_def stateless_env_def)

lemma first_batch_of_instances:
  assumes ok: "\<And>w. tag_resources env w (map instance_arn [0..<20]) env_prod = (Returns (Some []), w)"
  shows "process_batches env env_prod [map instance_arn [0..<20]]
      (process_service_specific env env_prod (service_specific_arns (map instance_arn [0..<45]))
         (initial_state ())) =
     (None, \<lparr>world = (), trace = [Call_tag_resources (map instance_arn [0..<20]) env_prod],
             total_success_count = 20, total_failed = []\<rparr>)"
  by (simp add: instances_resource_groups process_batch_def ok dict_update_def initial_state_def
      del: upt_rec_numeral)

text \<open>
  45 instances, the second batch of which is throttled: its identifiers are in the
  failure map of the run with the code of the exception, those of the first and of the
  third batch are not, and the 25 of them count as successes.
\<close>

theorem client_error_marks_whole_batch_witness:
  "tagging_client (throttling_env (instance_arn 20)) () = (Returns (), ()) \<and>
   batches (resource_groups_arns (map instance_arn [0..<45])) =
     [map instance_arn [0..<20]] @ map instance_arn [20..<40] # [map instance_arn [40..<45]] \<and>
   tag_resources (throttling_env (instance_arn 20)) () (map instance_arn [20..<40]) env_prod =
     (Raises throttled, ()) \<and>
   map_of (total_failed (final (apply_tags_to_resources (throttling_env (instance_arn 20))
      (map instance_arn [0..<45]) env_prod ()))) (instance_arn 20) =
     Some \<lparr>ErrorCode = ''ThrottlingException'', ErrorMessage = ''Rate exceeded''\<rparr> \<and>
   map_of (total_failed (final (apply_tags_to_resources (throttling_env (instance_arn 20))
      (map instance_arn [0..<45]) env_prod ()))) (instance_arn 39) =
     Some \<lparr>ErrorCode = ''ThrottlingException'', ErrorMessage = ''Rate exceeded''\<rparr> \<and>
   map_of (total_failed (final (apply_tags_to_resources (throttling_env (instance_arn 20))
      (map instance_arn [0..<45]) env_prod ()))) (instance_arn 19) = None \<and>
   map_of (total_failed (final (apply_tags_to_resources (throttling_env (instance_arn 20))
      (map instance_arn [0..<45]) env_prod ()))) (instance_arn 40) = None \<and>
   total_success_count (final (apply_tags_to_resources (throttling_env (instance_arn 20))
      (map instance_arn [0..<45]) env_prod ())) = 25 \<and>
   escaped (apply_tags_to_resources (throttling_env (instance_arn 20))
      (map instance_arn [0..<45]) env_prod ()) = None"
proof -
  let ?env = "throttling_env (instance_arn 20)"
  let ?arns = "map instance_arn [0..<45]"
  let ?c1 = "map instance_arn [0..<20]"
  let ?c2 = "map instance_arn [20..<40]"
  let ?c3 = "map instance_arn [40..<45]"
  let ?r = "apply_tags_to_resources ?env ?arns env_prod ()"
  let ?st1 = "\<lparr>world = (), trace = [Call_tag_resources ?c1 env_prod],
             total_success_count = 20, total_failed = []\<rparr> :: unit run_state"
  have client: "tagging_client ?env () = (Returns (), ())"
    by (simp add: throttling_env_def stateless_env_def)
  have chunks: "batches (resource_groups_arns ?arns) = [?c1] @ ?c2 # [?c3]"
    by (simp only: batches_45_instances append_Cons append_Nil)
  have ok1: "tag_resources ?env w ?c1 env_prod = (Returns (Some []), w)" for w
    by (simp add: throttling_env_def stateless_env_def del: upt_rec_numeral)
  have pre: "process_batches ?env env_prod [?c1]
      (process_service_specific ?env env_prod (service_specific_arns ?arns) (initial_state ())) =
     (None, ?st1)"
    using ok1 by (rule first_batch_of_instances)
  have err: "tag_resources ?env (world ?st1) ?c2 env_prod =
      (Raises (ClientError ''ThrottlingException'' ''Rate exceeded''), ())"
    by (simp add: throttling_env_def stateless_env_def throttled_def del: upt_rec_numeral)
  have ok3: "tag_resources ?env w ?c3 env_prod = (Returns (Some []), w)" for w
    by (simp add: throttling_env_def stateless_env_def del: upt_rec_numeral)
  note t = client_error_marks_whole_batch [OF client chunks pre, THEN conjunct1, THEN mp, OF err]
  from t obtain st2 where
    cnt: "total_success_count st2 = total_success_count ?st1"
    and oth: "\<forall>arn. arn \<notin> set ?c2 \<longrightarrow> map_of (total_failed st2) arn = map_of (total_failed ?st1) arn"
    and esc: "escaped ?r = fst (process_batches ?env env_prod [?c3] st2)"
    and fin: "final ?r = snd (process_batches ?env env_prod [?c3] st2)"
    and rec: "bulk_well_formed ?env \<and> distinct ?arns \<longrightarrow>
        (\<forall>arn \<in> set ?c2. map_of (total_failed (final ?r)) arn =
           Some \<lparr>ErrorCode = ''ThrottlingException'', ErrorMessage = ''Rate exceeded''\<rparr>)"
    by (elim exE conjE)
  have "bulk_well_formed ?env \<and> distinct ?arns"
    using bulk_well_formed_throttling distinct_instances by (intro conjI)
  with rec have all: "\<forall>arn \<in> set ?c2. map_of (total_failed (final ?r)) arn =
           Some \<lparr>ErrorCode = ''ThrottlingException'', ErrorMessage = ''Rate exceeded''\<rparr>"
    by (rule mp)
  have in20: "instance_arn 20 \<in> set ?c2" by (simp del: upt_rec_numeral)
  have in39: "instance_arn 39 \<in> set ?c2" by (simp del: upt_rec_numeral)
  have out19: "instance_arn 19 \<notin> set ?c2" by (simp del: upt_rec_numeral)
  have out40: "instance_arn 40 \<notin> set ?c2" by (simp del: upt_rec_numeral)
  from all in20 have a20: "map_of (total_failed (final ?r)) (instance_arn 20) =
      Some \<lparr>ErrorCode = ''ThrottlingException'', ErrorMessage = ''Rate exceeded''\<rparr>"
    by (rule bspec)
  from all in39 have a39: "map_of (total_failed (final ?r)) (instance_arn 39) =
      Some \<lparr>ErrorCode = ''ThrottlingException'', ErrorMessage = ''Rate exceeded''\<rparr>"
    by (rule bspec)
  have f3: "fst (process_batches ?env env_prod [?c3] st2) = None"
    by (simp add: process_batch_def ok3 del: upt_rec_numeral)
  have c3: "total_success_count (snd (process_batches ?env env_prod [?c3] st2)) =
      total_success_count st2 + 5"
    by (simp add: process_batch_def ok3 del: upt_rec_numeral)
  have m3: "total_failed (snd (process_batches ?env env_prod [?c3] st2)) = total_failed st2"
    by (simp add: process_batch_def ok3 dict_update_def del: upt_rec_numeral)
  from oth out19 have "map_of (total_failed st2) (instance_arn 19) =
      map_of (total_failed ?st1) (instance_arn 19)" by blast
  then have a19: "map_of (total_failed (final ?r)) (instance_arn 19) = None"
    by (simp only: fin m3) simp
  from oth out40 have "map_of (total_failed st2) (instance_arn 40) =
      map_of (total_failed ?st1) (instance_arn 40)" by blast
  then have a40: "map_of (total_failed (final ?r)) (instance_arn 40) = None"
    by (simp only: fin m3) simp
  have count: "total_success_count (final ?r) = 25"
    by (simp only: fin c3 cnt) simp
  have e: "escaped ?r = None" by (simp only: esc f3)
  have err': "tag_resources ?env () ?c2 env_prod = (Raises throttled, ())"
    using err by (simp add: throttled_def)
  from client chunks err' a20 a39 a19 a40 count e show ?thesis by (intro conjI)
qed

text \<open>
  The claim as stated fails for an exception of the transport. The call for the second of
  three batches times out: no identifier of the batch is in the failure map, and the
  third batch gets no call.
\<close>

theorem timed_out_batch_records_nothing:
  "batches (resource_groups_arns (map instance_arn [0..<45])) =
     [map instance_arn [0..<20], map instance_arn [20..<40], map instance_arn [40..<45]] \<and>
   tag_resources (bulk_timeout_env (instance_arn 20)) () (map instance_arn [20..<40]) env_prod =
     (Raises read_timeout, ()) \<and>
   apply_tags_to_resources (bulk_timeout_env (instance_arn 20)) (map instance_arn [0..<45])
       env_prod () =
     Run (Some False) (Some read_timeout)
       \<lparr>world = (),
        trace = [Call_tag_resources (map instance_arn [0..<20]) env_prod,
                 Call_tag_resources (map instance_arn [20..<40]) env_prod],
        total_success_count = 20,
        total_failed = []\<rparr>"
proof -
  let ?env = "bulk_timeout_env (instance_arn 20)"
  let ?arns = "map instance_arn [0..<45]"
  let ?c1 = "map instance_arn [0..<20]"
  let ?c2 = "map instance_arn [20..<40]"
  let ?c3 = "map instance_arn [40..<45]"
  let ?st1 = "\<lparr>world = (), trace = [Call_tag_resources ?c1 env_prod],
             total_success_count = 20, total_failed = []\<rparr> :: unit run_state"
  have client: "tagging_client ?env () = (Returns (), ())"
    by (simp add: bulk_timeout_env_def stateless_env_def)
  have chunks: "batches (resource_groups_arns ?arns) = [?c1] @ ?c2 # [?c3]"
    by (simp only: batches_45_instances append_Cons append_Nil)
  have ok1: "tag_resources ?env w ?c1 env_prod = (Returns (Some []), w)" for w
    by (simp add: bulk_timeout_env_def stateless_env_def del: upt_rec_numeral)
  have pre: "process_batches ?env env_prod [?c1]
      (process_service_specific ?env env_prod (service_specific_arns ?arns) (initial_state ())) =
     (None, ?st1)"
    using ok1 by (rule first_batch_of_instances)
  have err: "tag_resources ?env (world ?st1) ?c2 env_prod =
      (Raises (OtherException ''Read timeout on endpoint URL''), ())"
    by (simp add: bulk_timeout_env_def stateless_env_def read_timeout_def del: upt_rec_numeral)
  note r = run_batch_other_exception [OF client chunks pre err]
  have 1: "apply_tags_to_resources ?env ?arns env_prod () =
     Run (Some False) (Some read_timeout)
       \<lparr>world = (),
        trace = [Call_tag_resources ?c1 env_prod, Call_tag_resources ?c2 env_prod],
        total_success_count = 20,
        total_failed = []\<rparr>"
    by (simp only: r) (simp add: read_timeout_def del: upt_rec_numeral)
  have 2: "tag_resources ?env () ?c2 env_prod = (Raises read_timeout, ())"
    using err by (simp add: read_timeout_def)
  from batches_45_instances 2 1 show ?thesis by (intro conjI)
qed


section \<open>The bucket path: what is written\<close>

lemmas adapter_defs =
  tag_resource_with_service_api_def read_existing_tags_def dict_update_def py_split_def
  py_index_def stateless_env_def raising_env_def unreadable_bucket_env_def bucket_env_def
  guarded_bucket_env_def no_credentials_def access_denied_def read_timeout_def Let_def

lemma read_existing_tags_tags_read:
  assumes get: "s3_get_bucket_tagging env w bucket_name = (out, w1)"
    and leads: "\<forall>m. out \<noteq> Raises (OtherException m)"
  shows "\<exists>evs. read_existing_tags env w bucket_name = (Inr (dict_update [] (tags_read out)), evs, w1)"
proof (cases out)
  case (Returns response)
  with get show ?thesis
    by (cases response) (simp_all add: read_existing_tags_def tags_read_def dict_update_def Let_def)
next
  case (Raises e)
  show ?thesis
  proof (cases e)
    case (ClientError code msg)
    with get Raises show ?thesis
      by (simp add: read_existing_tags_def tags_read_def dict_update_def)
  next
    case (OtherException m)
    with Raises leads show ?thesis by simp
  qed
qed

lemma adapter_s3_no_write:
  assumes "s3_get_bucket_tagging env w (last (py_split '':::'' arn)) = (Raises (OtherException m), w1)"
  shows "bucket_writes (fst (snd (tag_resource_with_service_api env arn tags (Some ''s3'') w))) = []"
  by (simp add: adapter_s3 read_existing_tags_other [OF assms])

lemma bucket_example_1:
  "tag_resource_with_service_api bucket_env my_bucket [(''owner'', ''team-a'')] (Some ''s3'')
         [(''env'', ''prod'')] =
       (True,
        [Call_get_bucket_tagging ''my-bucket'', Log INFO (ExistingTags 1),
         Call_put_bucket_tagging ''my-bucket'' [(''env'', ''prod''), (''owner'', ''team-a'')],
         Log INFO (TagsApplied 1 2)],
        [(''env'', ''prod''), (''owner'', ''team-a'')])"
  by (simp add: adapter_defs my_bucket_def)

lemma bucket_example_2:
  "tag_resource_with_service_api bucket_env my_bucket [(''env'', ''staging'')] (Some ''s3'')
         [(''env'', ''prod'')] =
       (True,
        [Call_get_bucket_tagging ''my-bucket'', Log INFO (ExistingTags 1),
         Call_put_bucket_tagging ''my-bucket'' [(''env'', ''staging'')],
         Log INFO (TagsApplied 1 1)],
        [(''env'', ''staging'')])"
  by (simp add: adapter_defs my_bucket_def)

text \<open>
  Claim C6, as the code has it. Whatever the read of the bucket answers, unless it raises
  an exception that is no \<open>ClientError\<close>, \<open>tag_resource_with_service_api\<close> writes to
  the bucket once, and the tag set written is a dictionary that maps every key of the new
  tags to its new value and every other key of the tags read to the value read: the
  union, in which the new value wins. The tags read are the tag set that the read
  returned, and no tag at all when the read raised a \<open>ClientError\<close> (\<open>NoSuchTagSet\<close>
  or another) or returned no tag set. When the read raises another exception nothing is
  written. A bucket with \<open>{env: prod}\<close> is written \<open>{env: prod, owner: team-a}\<close> for the
  new tags \<open>{owner: team-a}\<close>, and \<open>{env: staging}\<close> for the new tags \<open>{env: staging}\<close>.
\<close>

theorem bucket_write_is_union:
  assumes read: "s3_get_bucket_tagging env w (last (py_split '':::'' arn)) = (out, w1)"
    and dts: "distinct (map fst (tags_read out))"
    and dtags: "distinct (map fst tags)"
  shows "((\<forall>m. out \<noteq> Raises (OtherException m)) \<longrightarrow>
       (\<exists>tag_set.
          bucket_writes (fst (snd (tag_resource_with_service_api env arn tags (Some ''s3'') w))) =
            [(last (py_split '':::'' arn), tag_set)] \<and>
          distinct (map fst tag_set) \<and>
          map_of tag_set = map_of (tags_read out) ++ map_of tags)) \<and>
     ((\<exists>m. out = Raises (OtherException m)) \<longrightarrow>
        bucket_writes (fst (snd (tag_resource_with_service_api env arn tags (Some ''s3'') w))) = []) \<and>
     tag_resource_with_service_api bucket_env my_bucket [(''owner'', ''team-a'')] (Some ''s3'')
         [(''env'', ''prod'')] =
       (True,
        [Call_get_bucket_tagging ''my-bucket'', Log INFO (ExistingTags 1),
         Call_put_bucket_tagging ''my-bucket'' [(''env'', ''prod''), (''owner'', ''team-a'')],
         Log INFO (TagsApplied 1 2)],
        [(''env'', ''prod''), (''owner'', ''team-a'')]) \<and>
     tag_resource_with_service_api bucket_env my_bucket [(''env'', ''staging'')] (Some ''s3'')
         [(''env'', ''prod'')] =
       (True,
        [Call_get_bucket_tagging ''my-bucket'', Log INFO (ExistingTags 1),
         Call_put_bucket_tagging ''my-bucket'' [(''env'', ''staging'')],
         Log INFO (TagsApplied 1 1)],
        [(''env'', ''staging'')])"
proof -
  let ?existing = "dict_update [] (tags_read out)"
  let ?tag_set = "dict_update ?existing tags"
  have g: "(\<forall>m. out \<noteq> Raises (OtherException m)) \<longrightarrow>
       (\<exists>tag_set.
          bucket_writes (fst (snd (tag_resource_with_service_api env arn tags (Some ''s3'') w))) =
            [(last (py_split '':::'' arn), tag_set)] \<and>
          distinct (map fst tag_set) \<and>
          map_of tag_set = map_of (tags_read out) ++ map_of tags)"
  proof
    assume leads: "\<forall>m. out \<noteq> Raises (OtherException m)"
    from read_existing_tags_tags_read [OF read leads] obtain evs where
      r: "read_existing_tags env w (last (py_split '':::'' arn)) = (Inr ?existing, evs, w1)"
      by (elim exE)
    have 1: "bucket_writes (fst (snd (tag_resource_with_service_api env arn tags (Some ''s3'') w))) =
         [(last (py_split '':::'' arn), ?tag_set)]"
      using r by (rule adapter_s3_writes)
    have 2: "distinct (map fst ?tag_set)"
      by (intro distinct_dict_update) simp
    have "map_of ?existing = map_of (rev (tags_read out))"
      by (simp add: map_of_dict_update)
    with dts have e: "map_of ?existing = map_of (tags_read out)"
      by (simp add: map_of_rev_distinct)
    have "map_of ?tag_set = map_of ?existing ++ map_of (rev tags)"
      by (rule map_of_dict_update)
    with dtags e have 3: "map_of ?tag_set = map_of (tags_read out) ++ map_of tags"
      by (simp add: map_of_rev_distinct)
    show "\<exists>tag_set.
          bucket_writes (fst (snd (tag_resource_with_service_api env arn tags (Some ''s3'') w))) =
            [(last (py_split '':::'' arn), tag_set)] \<and>
          distinct (map fst tag_set) \<and>
          map_of tag_set = map_of (tags_read out) ++ map_of tags"
    proof (intro exI conjI)
      show "bucket_writes (fst (snd (tag_resource_with_service_api env arn tags (Some ''s3'') w))) =
         [(last (py_split '':::'' arn), ?tag_set)]" by (rule 1)
      show "distinct (map fst ?tag_set)" by (rule 2)
      show "map_of ?tag_set = map_of (tags_read out) ++ map_of tags" by (rule 3)
    qed
  qed
  have n: "(\<exists>m. out = Raises (OtherException m)) \<longrightarrow>
        bucket_writes (fst (snd (tag_resource_with_service_api env arn tags (Some ''s3'') w))) = []"
  proof
    assume "\<exists>m. out = Raises (OtherException m)"
    then obtain m where "out = Raises (OtherException m)" by (elim exE)
    with read have "s3_get_bucket_tagging env w (last (py_split '':::'' arn)) =
        (Raises (OtherException m), w1)" by simp
    then show "bucket_writes (fst (snd (tag_resource_with_service_api env arn tags (Some ''s3'') w))) = []"
      by (rule adapter_s3_no_write)
  qed
  from g n bucket_example_1 bucket_example_2 show ?thesis by (intro conjI)
qed

text \<open>
  A bucket with two tags and two new tags, one of them on a key of the bucket; a bucket
  without tags; a bucket whose read times out.
\<close>

theorem bucket_write_is_union_witness:
  "last (py_split '':::'' my_bucket) = ''my-bucket'' \<and>
   (\<exists>tag_set.
      bucket_writes (fst (snd (tag_resource_with_service_api bucket_env my_bucket
         [(''env'', ''staging''), (''owner'', ''team-a'')] (Some ''s3'')
         [(''env'', ''prod''), (''cost'', ''42'')]))) = [(''my-bucket'', tag_set)] \<and>
      map_of tag_set ''env'' = Some ''staging'' \<and>
      map_of tag_set ''cost'' = Some ''42'' \<and>
      map_of tag_set ''owner'' = Some ''team-a'') \<and>
   (\<exists>tag_set.
      bucket_writes (fst (snd (tag_resource_with_service_api bucket_env my_bucket
         [(''env'', ''staging''), (''owner'', ''team-a'')] (Some ''s3'') []))) =
        [(''my-bucket'', tag_set)] \<and>
      map_of tag_set = map_of [(''env'', ''staging''), (''owner'', ''team-a'')]) \<and>
   bucket_writes (fst (snd (tag_resource_with_service_api (unreadable_bucket_env read_timeout)
      my_bucket env_prod (Some ''s3'') ()))) = []"
proof -
  have b: "last (py_split '':::'' my_bucket) = ''my-bucket''"
    by (simp add: py_split_def my_bucket_def)
  have d2: "distinct (map fst [(''env'', ''staging''), (''owner'', ''team-a'')])" by simp
  have read: "s3_get_bucket_tagging bucket_env [(''env'', ''prod''), (''cost'', ''42'')]
      (last (py_split '':::'' my_bucket)) =
     (Returns (Some [(''env'', ''prod''), (''cost'', ''42'')]), [(''env'', ''prod''), (''cost'', ''42'')])"
    by (simp add: bucket_env_def)
  have d1: "distinct (map fst (tags_read (Returns (Some [(''env'', ''prod''), (''cost'', ''42'')]))))"
    by (simp add: tags_read_def)
  have l1: "\<forall>m. Returns (Some [(''env'', ''prod''), (''cost'', ''42'')]) \<noteq> Raises (OtherException m)"
    by simp
  from bucket_write_is_union [OF read d1 d2, THEN conjunct1, THEN mp, OF l1]
  obtain tag_set where
    w: "bucket_writes (fst (snd (tag_resource_with_service_api bucket_env my_bucket
         [(''env'', ''staging''), (''owner'', ''team-a'')] (Some ''s3'')
         [(''env'', ''prod''), (''cost'', ''42'')]))) = [(last (py_split '':::'' my_bucket), tag_set)]"
    and m: "map_of tag_set = map_of (tags_read (Returns (Some [(''env'', ''prod''), (''cost'', ''42'')]))) ++
         map_of [(''env'', ''staging''), (''owner'', ''team-a'')]"
    by (elim exE conjE)
  from m have m1: "map_of tag_set ''env'' = Some ''staging''" by (simp add: tags_read_def)
  from m have m2: "map_of tag_set ''cost'' = Some ''42''" by (simp add: tags_read_def)
  from m have m3: "map_of tag_set ''owner'' = Some ''team-a''" by (simp add: tags_read_def)
  from w have w': "bucket_writes (fst (snd (tag_resource_with_service_api bucket_env my_bucket
         [(''env'', ''staging''), (''owner'', ''team-a'')] (Some ''s3'')
         [(''env'', ''prod''), (''cost'', ''42'')]))) = [(''my-bucket'', tag_set)]"
    by (simp only: b)
  have A: "\<exists>tag_set.
      bucket_writes (fst (snd (tag_resource_with_service_api bucket_env my_bucket
         [(''env'', ''staging''), (''owner'', ''team-a'')] (Some ''s3'')
         [(''env'', ''prod''), (''cost'', ''42'')]))) = [(''my-bucket'', tag_set)] \<and>
      map_of tag_set ''env'' = Some ''staging'' \<and>
      map_of tag_set ''cost'' = Some ''42'' \<and>
      map_of tag_set ''owner'' = Some ''team-a''"
    using w' m1 m2 m3 by (intro exI conjI)
  have read0: "s3_get_bucket_tagging bucket_env [] (last (py_split '':::'' my_bucket)) =
     (Raises (ClientError ''NoSuchTagSet'' ''The TagSet does not exist''), [])"
    by (simp add: bucket_env_def)
  have d0: "distinct (map fst (tags_read
      (Raises (ClientError ''NoSuchTagSet'' ''The TagSet does not exist''))))"
    by (simp add: tags_read_def)
  have l0: "\<forall>m. Raises (ClientError ''NoSuchTagSet'' ''The TagSet does not exist'') \<noteq>
      Raises (OtherException m)"
    by simp
  from bucket_write_is_union [OF read0 d0 d2, THEN conjunct1, THEN mp, OF l0]
  obtain tag_set0 where
    w0: "bucket_writes (fst (snd (tag_resource_with_service_api bucket_env my_bucket
         [(''env'', ''staging''), (''owner'', ''team-a'')] (Some ''s3'') []))) =
        [(last (py_split '':::'' my_bucket), tag_set0)]"
    and m0: "map_of tag_set0 =
         map_of (tags_read (Raises (ClientError ''NoSuchTagSet'' ''The TagSet does not exist''))) ++
         map_of [(''env'', ''staging''), (''owner'', ''team-a'')]"
    by (elim exE conjE)
  from m0 have m0': "map_of tag_set0 = map_of [(''env'', ''staging''), (''owner'', ''team-a'')]"
    by (simp add: tags_read_def)
  from w0 have w0': "bucket_writes (fst (snd (tag_resource_with_service_api bucket_env my_bucket
         [(''env'', ''staging''), (''owner'', ''team-a'')] (Some ''s3'') []))) =
        [(''my-bucket'', tag_set0)]"
    by (simp only: b)
  have B: "\<exists>tag_set.
      bucket_writes (fst (snd (tag_resource_with_service_api bucket_env my_bucket
         [(''env'', ''staging''), (''owner'', ''team-a'')] (Some ''s3'') []))) =
        [(''my-bucket'', tag_set)] \<and>
      map_of tag_set = map_of [(''env'', ''staging''), (''owner'', ''team-a'')]"
    using w0' m0' by (intro exI conjI)
  have readt: "s3_get_bucket_tagging (unreadable_bucket_env read_timeout) ()
      (last (py_split '':::'' my_bucket)) = (Raises read_timeout, ())"
    by (simp add: unreadable_bucket_env_def stateless_env_def)
  have dt: "distinct (map fst (tags_read (Raises read_timeout)))"
    by (simp add: tags_read_def)
  have de: "distinct (map fst env_prod)" by (simp add: env_prod_def)
  have lt: "\<exists>m. Raises read_timeout = Raises (OtherException m)"
    by (simp add: read_timeout_def)
  from bucket_write_is_union [OF readt dt de, THEN conjunct2, THEN conjunct1, THEN mp, OF lt]
  have C: "bucket_writes (fst (snd (tag_resource_with_service_api (unreadable_bucket_env read_timeout)
      my_bucket env_prod (Some ''s3'') ()))) = []" .
  from b A B C show ?thesis by (intro conjI)
qed

text \<open>
  The claim as stated fails. The bucket holds \<open>{env: prod}\<close> and may not be read: the
  adapter writes the new tags alone, and the tag of the bucket is not in what it writes.
\<close>

theorem refused_read_loses_the_bucket_tags:
  "s3_get_bucket_tagging guarded_bucket_env [(''env'', ''prod'')] ''my-bucket'' =
     (Raises access_denied, [(''env'', ''prod'')]) \<and>
   tag_resource_with_service_api guarded_bucket_env my_bucket [(''owner'', ''team-a'')]
       (Some ''s3'') [(''env'', ''prod'')] =
     (True,
      [Call_get_bucket_tagging ''my-bucket'', Log WARNING (ReadFailed access_denied),
       Call_put_bucket_tagging ''my-bucket'' [(''owner'', ''team-a'')],
       Log INFO (TagsApplied 1 1)],
      [(''owner'', ''team-a'')]) \<and>
   (map_of [(''env'', ''prod'')] ++ map_of [(''owner'', ''team-a'')]) ''env'' = Some ''prod'' \<and>
   map_of [(''owner'', ''team-a'')] ''env'' = None"
  by (simp add: adapter_defs my_bucket_def)

text \<open>
  Claim C5, as the code has it. When reading the tags of the bucket raises a
  \<open>ClientError\<close> whose code is not \<open>NoSuchTagSet\<close>, the failure is logged as a warning,
  the tags read are taken to be empty, the write is made with the new tags alone, and the
  result is that of the write: the read failure does not make the operation fail. When
  the read raises any other exception, nothing is written and the operation fails; the
  exception goes to the log as an error.
\<close>

theorem read_client_error_is_tolerated:
  "(s3_get_bucket_tagging env w (last (py_split '':::'' arn)) = (Raises (ClientError code msg), w1) \<and>
    code \<noteq> ''NoSuchTagSet'' \<longrightarrow>
    tag_resource_with_service_api env arn tags (Some ''s3'') w =
      (case s3_put_bucket_tagging env w1 (last (py_split '':::'' arn)) (dict_update [] tags) of
         (Returns u, w2) \<Rightarrow>
           (True,
            [Call_get_bucket_tagging (last (py_split '':::'' arn)),
             Log WARNING (ReadFailed (ClientError code msg)),
             Call_put_bucket_tagging (last (py_split '':::'' arn)) (dict_update [] tags),
             Log INFO (TagsApplied (length tags) (length (dict_update [] tags)))],
            w2)
       | (Raises e, w2) \<Rightarrow>
           (False,
            [Call_get_bucket_tagging (last (py_split '':::'' arn)),
             Log WARNING (ReadFailed (ClientError code msg)),
             Call_put_bucket_tagging (last (py_split '':::'' arn)) (dict_update [] tags),
             Log ERROR (ServiceApiError (Some ''s3'') e)],
            w2))) \<and>
   (s3_get_bucket_tagging env w (last (py_split '':::'' arn)) = (Raises (OtherException m), w1) \<longrightarrow>
    tag_resource_with_service_api env arn tags (Some ''s3'') w =
      (False,
       [Call_get_bucket_tagging (last (py_split '':::'' arn)),
        Log ERROR (ServiceApiError (Some ''s3'') (OtherException m))],
       w1))"
proof (intro conjI impI)
  assume h: "s3_get_bucket_tagging env w (last (py_split '':::'' arn)) =
      (Raises (ClientError code msg), w1) \<and> code \<noteq> ''NoSuchTagSet''"
  then have g: "s3_get_bucket_tagging env w (last (py_split '':::'' arn)) =
      (Raises (ClientError code msg), w1)" and c: "code \<noteq> ''NoSuchTagSet''"
    by simp_all
  from g have r: "read_existing_tags env w (last (py_split '':::'' arn)) =
     (Inr [],
      [Call_get_bucket_tagging (last (py_split '':::'' arn)),
       if code = ''NoSuchTagSet'' then Log INFO NoExistingTags
       else Log WARNING (ReadFailed (ClientError code msg))],
      w1)"
    by (rule read_existing_tags_client_error)
  obtain out w2 where p: "s3_put_bucket_tagging env w1 (last (py_split '':::'' arn))
      (dict_update [] tags) = (out, w2)"
    by (cases "s3_put_bucket_tagging env w1 (last (py_split '':::'' arn)) (dict_update [] tags)") auto
  show "tag_resource_with_service_api env arn tags (Some ''s3'') w =
      (case s3_put_bucket_tagging env w1 (last (py_split '':::'' arn)) (dict_update [] tags) of
         (Returns u, w2) \<Rightarrow>
           (True,
            [Call_get_bucket_tagging (last (py_split '':::'' arn)),
             Log WARNING (ReadFailed (ClientError code msg)),
             Call_put_bucket_tagging (last (py_split '':::'' arn)) (dict_update [] tags),
             Log INFO (TagsApplied (length tags) (length (dict_update [] tags)))],
            w2)
       | (Raises e, w2) \<Rightarrow>
           (False,
            [Call_get_bucket_tagging (last (py_split '':::'' arn)),
             Log WARNING (ReadFailed (ClientError code msg)),
             Call_put_bucket_tagging (last (py_split '':::'' arn)) (dict_update [] tags),
             Log ERROR (ServiceApiError (Some ''s3'') e)],
            w2))"
    using c by (cases out) (simp_all add: adapter_s3 r p)
next
  assume g: "s3_get_bucket_tagging env w (last (py_split '':::'' arn)) =
      (Raises (OtherException m), w1)"
  then have r: "read_existing_tags env w (last (py_split '':::'' arn)) =
     (Inl (OtherException m), [Call_get_bucket_tagging (last (py_split '':::'' arn))], w1)"
    by (rule read_existing_tags_other)
  show "tag_resource_with_service_api env arn tags (Some ''s3'') w =
      (False,
       [Call_get_bucket_tagging (last (py_split '':::'' arn)),
        Log ERROR (ServiceApiError (Some ''s3'') (OtherException m))],
       w1)"
    by (simp add: adapter_s3 r)
qed

text \<open>
  A bucket whose tags may not be read is tagged all the same; a bucket whose read times
  out is not.
\<close>

theorem read_client_error_is_tolerated_witness:
  "tag_resource_with_service_api (unreadable_bucket_env access_denied) my_bucket env_prod
      (Some ''s3'') () =
     (True,
      [Call_get_bucket_tagging ''my-bucket'', Log WARNING (ReadFailed access_denied),
       Call_put_bucket_tagging ''my-bucket'' env_prod, Log INFO (TagsApplied 1 1)],
      ()) \<and>
   tag_resource_with_service_api (unreadable_bucket_env read_timeout) my_bucket env_prod
      (Some ''s3'') () =
     (False,
      [Call_get_bucket_tagging ''my-bucket'',
       Log ERROR (ServiceApiError (Some ''s3'') read_timeout)],
      ())"
proof -
  have b: "last (py_split '':::'' my_bucket) = ''my-bucket''"
    by (simp add: py_split_def my_bucket_def)
  have g: "s3_get_bucket_tagging (unreadable_bucket_env access_denied) ()
      (last (py_split '':::'' my_bucket)) =
      (Raises (ClientError ''AccessDenied'' ''User is not authorized to perform this action''), ()) \<and>
      ''AccessDenied'' \<noteq> ''NoSuchTagSet''"
    by (simp add: unreadable_bucket_env_def stateless_env_def access_denied_def)
  have g2: "s3_get_bucket_tagging (unreadable_bucket_env read_timeout) ()
      (last (py_split '':::'' my_bucket)) =
      (Raises (OtherException ''Read timeout on endpoint URL''), ())"
    by (simp add: unreadable_bucket_env_def stateless_env_def read_timeout_def)
  note t = read_client_error_is_tolerated
  from t [THEN conjunct1, THEN mp, OF g, of env_prod]
  have 1: "tag_resource_with_service_api (unreadable_bucket_env access_denied) my_bucket env_prod
      (Some ''s3'') () =
     (True,
      [Call_get_bucket_tagging ''my-bucket'', Log WARNING (ReadFailed access_denied),
       Call_put_bucket_tagging ''my-bucket'' env_prod, Log INFO (TagsApplied 1 1)],
      ())"
    by (simp add: b unreadable_bucket_env_def stateless_env_def access_denied_def
        dict_update_def env_prod_def)
  from t [THEN conjunct2, THEN mp, OF g2, of env_prod]
  have 2: "tag_resource_with_service_api (unreadable_bucket_env read_timeout) my_bucket env_prod
      (Some ''s3'') () =
     (False,
      [Call_get_bucket_tagging ''my-bucket'',
       Log ERROR (ServiceApiError (Some ''s3'') read_timeout)],
      ())"
    by (simp add: b read_timeout_def)
  from 1 2 show ?thesis by (intro conjI)
qed

text \<open>
  The claim as stated fails. Reading the bucket raises an exception that is no
  \<open>ClientError\<close> (a read timeout), the write would return: no warning is logged, no
  write is made, and the bucket is in the failure map of the run.
\<close>

theorem read_timeout_fails_the_bucket:
  "s3_get_bucket_tagging (unreadable_bucket_env read_timeout) () ''my-bucket'' =
     (Raises read_timeout, ()) \<and>
   s3_put_bucket_tagging (unreadable_bucket_env read_timeout) () ''my-bucket'' env_prod =
     (Returns (), ()) \<and>
   tag_resource_with_service_api (unreadable_bucket_env read_timeout) my_bucket env_prod
      (Some ''s3'') () =
     (False,
      [Call_get_bucket_tagging ''my-bucket'',
       Log ERROR (ServiceApiError (Some ''s3'') read_timeout)],
      ()) \<and>
   apply_tags_to_resources (unreadable_bucket_env read_timeout) [my_bucket] env_prod () =
     Run (Some False) None
       \<lparr>world = (),
        trace = [Call_get_bucket_tagging ''my-bucket'',
                 Log ERROR (ServiceApiError (Some ''s3'') read_timeout)],
        total_success_count = 0,
        total_failed = [(my_bucket, service_specific_failure (Some ''s3''))]\<rparr>"
  by (simp add: run_defs example_defs read_timeout_def)

end
